theory Spec2Isabelle
  imports Main "HOL-Library.Sublist"
begin

section \<open>The data registry (createRegistry)\<close>

text \<open>
  The registry is the closure state of \<^verbatim>\<open>createRegistry\<close>: the objects \<^verbatim>\<open>stores\<close> and
  \<^verbatim>\<open>storesAtoms\<close>, the variable \<^verbatim>\<open>__unstableAtomResolver\<close> and the \<^verbatim>\<open>parent\<close> argument.
  Mutation is explicit state passing; a \<^verbatim>\<open>throw\<close> is the value \<open>Inl\<close> of a sum.
\<close>

subsection \<open>JavaScript values and property lookup\<close>

datatype error = TypeError string

text \<open>What a JavaScript call hands back: \<^verbatim>\<open>undefined\<close>, \<^verbatim>\<open>null\<close> or a proper value.\<close>

datatype 'a ret = Undefined | Null | Value 'a

type_synonym key = string

text \<open>
  \<^verbatim>\<open>stores\<close> and \<^verbatim>\<open>storesAtoms\<close> are created as \<^verbatim>\<open>{}\<close>, so \<^verbatim>\<open>stores[ key ]\<close> finds an own
  property first and what the prototype chain holds after that. The own properties are a
  map. The prototype is \<^verbatim>\<open>Object.prototype\<close> (\<open>None\<close> below) until an assignment under the
  name \<^verbatim>\<open>__proto__\<close> replaces it by the assigned object (\<open>Some\<close> of it), whose own prototype
  is \<^verbatim>\<open>Object.prototype\<close> again. The names below are the members of \<^verbatim>\<open>Object.prototype\<close>
  (all of them functions or objects, hence truthy).
\<close>

definition Object_prototype_keys :: "key list" where
  "Object_prototype_keys =
     [''constructor'', ''hasOwnProperty'', ''isPrototypeOf'', ''propertyIsEnumerable'',
      ''toLocaleString'', ''toString'', ''valueOf'', ''__proto__'',
      ''__defineGetter__'', ''__defineSetter__'', ''__lookupGetter__'', ''__lookupSetter__'']"

text \<open>
  What \<^verbatim>\<open>obj[ key ]\<close> finds: a value that was assigned (\<open>Own\<close>: an own property, or, under
  \<^verbatim>\<open>__proto__\<close>, the object that replaced the prototype, which the accessor
  \<^verbatim>\<open>Object.prototype.__proto__\<close> hands back), some other truthy member found along the
  prototype chain (\<open>Inherited\<close>), or \<^verbatim>\<open>undefined\<close> (\<open>Absent\<close>). The first argument tells which
  names are truthy members of an object that replaced the prototype.
\<close>

datatype 'a property = Own 'a | Inherited | Absent

definition js_get :: "('a \<Rightarrow> key \<Rightarrow> bool) \<Rightarrow> (key \<rightharpoonup> 'a) \<Rightarrow> 'a option \<Rightarrow> key \<Rightarrow> 'a property" where
  "js_get member obj proto k =
     (case obj k of
        Some v \<Rightarrow> Own v
      | None \<Rightarrow>
          (case proto of
             None \<Rightarrow> if k \<in> set Object_prototype_keys then Inherited else Absent
           | Some v \<Rightarrow>
               if k = ''__proto__'' then Own v
               else if member v k \<or> k \<in> set Object_prototype_keys then Inherited
               else Absent))"

text \<open>
  \<^verbatim>\<open>obj[ key ] = value\<close> for an object \<open>value\<close>: under the name \<^verbatim>\<open>__proto__\<close> the prototype
  of \<^verbatim>\<open>obj\<close> is replaced and no own property is made; under every other name an own
  property is created or overwritten. The object is the pair of its own properties and
  its replaced prototype.
\<close>

definition js_set :: "(key \<rightharpoonup> 'a) \<times> 'a option \<Rightarrow> key \<Rightarrow> 'a \<Rightarrow> (key \<rightharpoonup> 'a) \<times> 'a option" where
  "js_set obj k v =
     (if k = ''__proto__'' then (fst obj, Some v) else ((fst obj)(k \<mapsto> v), snd obj))"

subsection \<open>Store adapters and atoms\<close>

text \<open>
  An adapter (\<^verbatim>\<open>config\<close>) is an object whose properties \<^verbatim>\<open>getSelectors\<close>, \<^verbatim>\<open>getActions\<close> and
  \<^verbatim>\<open>subscribe\<close> are functions or not: \<open>None\<close> is "\<^verbatim>\<open>typeof\<close> is not \<^verbatim>\<open>'function'\<close>",
  \<open>Some b\<close> is a function (for the first two, one that returns the bundle \<open>b\<close>; for
  \<^verbatim>\<open>subscribe\<close>, here \<open>config_subscribe\<close>, the function identified by \<open>b\<close>).
\<close>

record ('s, 'a) config =
  getSelectors :: "'s option"
  getActions :: "'a option"
  config_subscribe :: "nat option"

text \<open>
  The members that a lookup finds on an adapter that replaced the prototype of \<^verbatim>\<open>stores\<close>:
  those of its three properties that are functions (\<^verbatim>\<open>registerGenericStore\<close> stores an
  adapter only when all three are).
\<close>

definition adapter_member :: "('s, 'a) config \<Rightarrow> key \<Rightarrow> bool" where
  "adapter_member cfg k =
     ((k = ''getSelectors'' \<and> getSelectors cfg \<noteq> None)
      \<or> (k = ''getActions'' \<and> getActions cfg \<noteq> None)
      \<or> (k = ''subscribe'' \<and> config_subscribe cfg \<noteq> None))"

text \<open>The second argument of \<^verbatim>\<open>registerGenericStore\<close>: an object, or \<^verbatim>\<open>null\<close>/\<^verbatim>\<open>undefined\<close>.\<close>

datatype ('s, 'a) jsarg = Nullish | Obj "('s, 'a) config"

text \<open>
  \<^verbatim>\<open>createStoreAtom( config.subscribe, () => null, () => {}, key )\<close> comes from
  \<^verbatim>\<open>@wordpress/stan\<close>; the atom is kept as the arguments it was built from. It is an
  object, hence truthy. Which members of its own it has is decided in that package; it is
  taken to have none, which matters only to \<^verbatim>\<open>getStoreAtom\<close> for a key that has no atom,
  once an atom has replaced the prototype of \<^verbatim>\<open>storesAtoms\<close>.
\<close>

datatype atom = StoreAtom nat key

definition createStoreAtom :: "nat \<Rightarrow> key \<Rightarrow> atom" where
  "createStoreAtom sub k = StoreAtom sub k"

definition atom_member :: "atom \<Rightarrow> key \<Rightarrow> bool" where
  "atom_member a k = False"

text \<open>What \<^verbatim>\<open>getStoreAtom\<close> can return: an atom, or the inherited member it found.\<close>

datatype atomval = Atom atom | ProtoMember key

subsection \<open>The registry state\<close>

text \<open>
  \<open>stores\<close> and \<open>storesAtoms\<close> are the own properties of the two objects, \<open>storesProto\<close>
  and \<open>storesAtomsProto\<close> their replaced prototypes; \<open>atomResolver\<close> is
  \<^verbatim>\<open>__unstableAtomResolver\<close> (\<open>None\<close> for \<^verbatim>\<open>undefined\<close>, else the identity of the callback);
  \<open>resolved\<close> logs the calls made to it; \<open>notifying\<close> lists the \<^verbatim>\<open>subscribe\<close> functions
  that were handed \<^verbatim>\<open>globalListener\<close>; \<open>parent\<close> is \<open>None\<close> for \<^verbatim>\<open>null\<close>.
\<close>

datatype ('s, 'a) registry =
  Registry
    (stores: "key \<rightharpoonup> ('s, 'a) config")
    (storesAtoms: "key \<rightharpoonup> atom")
    (atomResolver: "nat option")
    (resolved: "(nat \<times> atomval) list")
    (notifying: "nat list")
    (parent: "('s, 'a) registry option")
    (storesProto: "('s, 'a) config option")
    (storesAtomsProto: "atom option")

definition set_stores ::
  "(key \<rightharpoonup> ('s, 'a) config) \<times> ('s, 'a) config option \<Rightarrow> ('s, 'a) registry \<Rightarrow> ('s, 'a) registry" where
  "set_stores v r =
     Registry (fst v) (storesAtoms r) (atomResolver r) (resolved r) (notifying r) (parent r)
       (snd v) (storesAtomsProto r)"

definition set_storesAtoms ::
  "(key \<rightharpoonup> atom) \<times> atom option \<Rightarrow> ('s, 'a) registry \<Rightarrow> ('s, 'a) registry" where
  "set_storesAtoms v r =
     Registry (stores r) (fst v) (atomResolver r) (resolved r) (notifying r) (parent r)
       (storesProto r) (snd v)"

definition set_notifying :: "nat list \<Rightarrow> ('s, 'a) registry \<Rightarrow> ('s, 'a) registry" where
  "set_notifying v r =
     Registry (stores r) (storesAtoms r) (atomResolver r) (resolved r) v (parent r)
       (storesProto r) (storesAtomsProto r)"

definition set_parent :: "('s, 'a) registry option \<Rightarrow> ('s, 'a) registry \<Rightarrow> ('s, 'a) registry" where
  "set_parent v r =
     Registry (stores r) (storesAtoms r) (atomResolver r) (resolved r) (notifying r) v
       (storesProto r) (storesAtomsProto r)"

text \<open>\<^verbatim>\<open>__unstableSetAtomResolver( value )\<close>.\<close>

definition unstableSetAtomResolver :: "nat option \<Rightarrow> ('s, 'a) registry \<Rightarrow> ('s, 'a) registry" where
  "unstableSetAtomResolver v r =
     Registry (stores r) (storesAtoms r) v (resolved r) (notifying r) (parent r)
       (storesProto r) (storesAtomsProto r)"

subsection \<open>registerGenericStore\<close>

text \<open>
  The three \<^verbatim>\<open>typeof\<close> checks come first and throw; only then are \<^verbatim>\<open>stores\<close> and
  \<^verbatim>\<open>storesAtoms\<close> written and \<^verbatim>\<open>config.subscribe( globalListener )\<close> called. The result is
  the exception thrown (if any) and the state afterwards.
\<close>

definition registerGenericStore ::
  "key \<Rightarrow> ('s, 'a) jsarg \<Rightarrow> ('s, 'a) registry \<Rightarrow> error option \<times> ('s, 'a) registry" where
  "registerGenericStore k arg r =
     (case arg of
        Nullish \<Rightarrow> (Some (TypeError ''Cannot read properties of undefined''), r)
      | Obj cfg \<Rightarrow>
          if getSelectors cfg = None
          then (Some (TypeError ''config.getSelectors must be a function''), r)
          else if getActions cfg = None
          then (Some (TypeError ''config.getActions must be a function''), r)
          else (case config_subscribe cfg of
                  None \<Rightarrow> (Some (TypeError ''config.subscribe must be a function''), r)
                | Some sub \<Rightarrow>
                    (None,
                     set_notifying (notifying r @ [sub])
                       (set_storesAtoms
                          (js_set (storesAtoms r, storesAtomsProto r) k (createStoreAtom sub k))
                          (set_stores (js_set (stores r, storesProto r) k cfg) r)))))"

text \<open>A sequence of registration calls; a call that throws is caught by its caller.\<close>

fun register_all :: "(key \<times> ('s, 'a) jsarg) list \<Rightarrow> ('s, 'a) registry \<Rightarrow> ('s, 'a) registry" where
  "register_all [] r = r"
| "register_all ((k, arg) # rest) r = register_all rest (snd (registerGenericStore k arg r))"

text \<open>The closure state when \<^verbatim>\<open>createRegistry\<close> starts: nothing registered.\<close>

definition empty_registry :: "('s, 'a) registry option \<Rightarrow> ('s, 'a) registry" where
  "empty_registry p = Registry Map.empty Map.empty None [] [] p None None"

text \<open>Every store in \<^verbatim>\<open>stores\<close> has, under the same key, the atom made from its \<^verbatim>\<open>subscribe\<close>.\<close>

definition atoms_cover :: "('s, 'a) registry \<Rightarrow> bool" where
  "atoms_cover r =
     (\<forall>k cfg. stores r k = Some cfg \<longrightarrow>
        (\<exists>sub. config_subscribe cfg = Some sub \<and> storesAtoms r k = Some (createStoreAtom sub k)))"

text \<open>
  The adapter that is registered locally under a key: the own property of \<^verbatim>\<open>stores\<close>, or,
  for the key \<^verbatim>\<open>__proto__\<close>, the adapter that replaced the prototype.
\<close>

definition registered :: "('s, 'a) registry \<Rightarrow> key \<Rightarrow> ('s, 'a) config option" where
  "registered r k =
     (case stores r k of
        Some cfg \<Rightarrow> Some cfg
      | None \<Rightarrow> if k = ''__proto__'' then storesProto r else None)"

text \<open>
  A name that \<^verbatim>\<open>stores\<close> inherits: a member of \<^verbatim>\<open>Object.prototype\<close>, or a member of the
  adapter that replaced the prototype.
\<close>

definition stores_inherits :: "('s, 'a) registry \<Rightarrow> key \<Rightarrow> bool" where
  "stores_inherits r k =
     (k \<in> set Object_prototype_keys
      \<or> (case storesProto r of None \<Rightarrow> False | Some cfg \<Rightarrow> adapter_member cfg k))"

subsection \<open>getStoreAtom, select, dispatch\<close>

fun getStoreAtom :: "('s, 'a) registry \<Rightarrow> key \<Rightarrow> error + atomval" where
  "getStoreAtom (Registry st at res lg nt par sp ap) k =
     (case js_get atom_member at ap k of
        Own a \<Rightarrow> Inr (Atom a)
      | Inherited \<Rightarrow> Inr (ProtoMember k)
      | Absent \<Rightarrow>
          (case par of
             None \<Rightarrow> Inl (TypeError ''Cannot read properties of null'')
           | Some p \<Rightarrow> getStoreAtom p k))"

text \<open>
  \<^verbatim>\<open>store.getSelectors()\<close> and \<^verbatim>\<open>store.getActions()\<close> for whatever \<^verbatim>\<open>stores[ key ]\<close>
  found: calling a property that is not a function throws.
\<close>

definition call_getSelectors :: "('s, 'a) config property \<Rightarrow> error + 's ret" where
  "call_getSelectors p =
     (case p of
        Own cfg \<Rightarrow>
          (case getSelectors cfg of
             Some b \<Rightarrow> Inr (Value b)
           | None \<Rightarrow> Inl (TypeError ''store.getSelectors is not a function''))
      | _ \<Rightarrow> Inl (TypeError ''store.getSelectors is not a function''))"

definition call_getActions :: "('s, 'a) config property \<Rightarrow> error + 'a ret" where
  "call_getActions p =
     (case p of
        Own cfg \<Rightarrow>
          (case getActions cfg of
             Some b \<Rightarrow> Inr (Value b)
           | None \<Rightarrow> Inl (TypeError ''store.getActions is not a function''))
      | _ \<Rightarrow> Inl (TypeError ''store.getActions is not a function''))"

text \<open>
  \<^verbatim>\<open>select\<close>: a truthy \<^verbatim>\<open>stores[ reducerKey ]\<close> is taken as the store (the atom resolver,
  when set, is called with the store's atom first); otherwise the parent, after its atom
  resolver was overwritten with this registry's; otherwise nothing is returned.
\<close>

fun depth :: "('s, 'a) registry \<Rightarrow> nat" where
  "depth (Registry st at res lg nt None sp ap) = 0"
| "depth (Registry st at res lg nt (Some p) sp ap) = Suc (depth p)"

lemma depth_unstableSetAtomResolver [simp]: "depth (unstableSetAtomResolver v r) = depth r"
proof (cases r)
  case (Registry st at res lg nt par sp ap)
  then show ?thesis by (cases par) (simp_all add: unstableSetAtomResolver_def)
qed

function select :: "('s, 'a) registry \<Rightarrow> key \<Rightarrow> (error + 's ret) \<times> ('s, 'a) registry" where
  "select (Registry st at res lg nt par sp ap) k =
     (let r = Registry st at res lg nt par sp ap in
      case js_get adapter_member st sp k of
        Absent \<Rightarrow>
          (case par of
             None \<Rightarrow> (Inr Undefined, r)
           | Some p \<Rightarrow>
               (case select (unstableSetAtomResolver res p) k of
                  (x, p') \<Rightarrow> (x, Registry st at res lg nt (Some p') sp ap)))
      | store \<Rightarrow>
          (case res of
             None \<Rightarrow> (call_getSelectors store, r)
           | Some f \<Rightarrow>
               (case getStoreAtom r k of
                  Inl e \<Rightarrow> (Inl e, r)
                | Inr a \<Rightarrow>
                    (call_getSelectors store, Registry st at res (lg @ [(f, a)]) nt par sp ap))))"
  by pat_completeness auto
termination
  by (relation "measure (\<lambda>(r, k). depth r)") simp_all

text \<open>\<^verbatim>\<open>dispatch\<close>: the same lookup, ending in \<^verbatim>\<open>parent && parent.dispatch( reducerKey )\<close>.\<close>

fun dispatch :: "('s, 'a) registry \<Rightarrow> key \<Rightarrow> error + 'a ret" where
  "dispatch (Registry st at res lg nt par sp ap) k =
     (case js_get adapter_member st sp k of
        Absent \<Rightarrow>
          (case par of
             None \<Rightarrow> Inr Null
           | Some p \<Rightarrow> dispatch p k)
      | store \<Rightarrow> call_getActions store)"

subsection \<open>A small registry, for evaluating the definitions\<close>

text \<open>
  Bundles are numbered: the core store, a counter store, and an adapter whose
  \<^verbatim>\<open>getSelectors\<close> is not a function.
\<close>

definition core_adapter :: "(nat, nat) config" where
  "core_adapter = \<lparr>getSelectors = Some 3, getActions = Some 4, config_subscribe = Some 0\<rparr>"

definition counter_adapter :: "(nat, nat) config" where
  "counter_adapter = \<lparr>getSelectors = Some 1, getActions = Some 2, config_subscribe = Some 7\<rparr>"

definition broken_adapter :: "(nat, nat) config" where
  "broken_adapter = \<lparr>getSelectors = None, getActions = Some 4, config_subscribe = Some 5\<rparr>"

definition example_registrations :: "(key \<times> (nat, nat) jsarg) list" where
  "example_registrations =
     [(''core/data'', Obj core_adapter), (''broken'', Obj broken_adapter),
      (''counter'', Obj counter_adapter)]"



text \<open>
  A registry with a store registered under the name of a member of \<^verbatim>\<open>Object.prototype\<close>
  and another under \<^verbatim>\<open>__proto__\<close>.
\<close>

definition example_proto :: "(nat, nat) registry" where
  "example_proto =
     register_all [(''toString'', Obj core_adapter), (''__proto__'', Obj counter_adapter)]
       (empty_registry None)"

section \<open>Resolving preset and custom variables (getValueFromVariable)\<close>

subsection \<open>Values and strings\<close>

text \<open>
  The values that reach \<^verbatim>\<open>getValueFromVariable\<close>: anything found in the styles tree or
  passed by a caller. \<open>JStrObj\<close> is a \<^verbatim>\<open>String\<close> object, which lodash's \<^verbatim>\<open>isString\<close>
  accepts as well. Of a number only its truthiness is ever looked at.
\<close>

datatype jsv =
    JUndefined | JNull | JBool bool | JNum int | JNaN
  | JStr string | JStrObj string
  | JArr "jsv list" | JObj "(string \<times> jsv) list"

fun truthy :: "jsv \<Rightarrow> bool" where
  "truthy JUndefined = False"
| "truthy JNull = False"
| "truthy (JBool b) = b"
| "truthy (JNum n) = (n \<noteq> 0)"
| "truthy JNaN = False"
| "truthy (JStr s) = (s \<noteq> [])"
| "truthy (JStrObj s) = True"
| "truthy (JArr xs) = True"
| "truthy (JObj ps) = True"

fun isString :: "jsv \<Rightarrow> bool" where
  "isString (JStr s) = True"
| "isString (JStrObj s) = True"
| "isString v = False"

fun str_of :: "jsv \<Rightarrow> string" where
  "str_of (JStr s) = s"
| "str_of (JStrObj s) = s"
| "str_of v = []"

text \<open>\<^verbatim>\<open>a ?? b\<close> and \<^verbatim>\<open>a || b\<close>.\<close>

definition nullish_or :: "jsv \<Rightarrow> jsv \<Rightarrow> jsv" where
  "nullish_or a b = (if a = JUndefined \<or> a = JNull then b else a)"

definition falsy_or :: "jsv \<Rightarrow> jsv \<Rightarrow> jsv" where
  "falsy_or a b = (if truthy a then a else b)"

definition startsWith :: "string \<Rightarrow> string \<Rightarrow> bool" where
  "startsWith s p = (take (length p) s = p)"

definition endsWith :: "string \<Rightarrow> string \<Rightarrow> bool" where
  "endsWith s p = (length p \<le> length s \<and> drop (length s - length p) s = p)"

text \<open>
  \<^verbatim>\<open>s.slice( start, end )\<close> for \<open>0 \<le> start\<close>; a negative \<open>end\<close> counts from the end of
  the string.
\<close>

definition slice :: "string \<Rightarrow> nat \<Rightarrow> int \<Rightarrow> string" where
  "slice s start fin =
     (let len = int (length s);
          to = (if fin < 0 then max (len + fin) 0 else min fin len)
      in take (nat to - start) (drop start s))"

text \<open>
  \<^verbatim>\<open>s.split( sep )\<close> for a separator that is not empty: cut at each leftmost occurrence;
  \<open>cur\<close> is the piece being read.
\<close>

function split_from :: "string \<Rightarrow> string \<Rightarrow> string \<Rightarrow> string list" where
  "split_from sep cur [] = [cur]"
| "split_from sep cur (c # cs) =
     (if sep \<noteq> [] \<and> take (length sep) (c # cs) = sep
      then cur # split_from sep [] (drop (length sep) (c # cs))
      else split_from sep (cur @ [c]) cs)"
  by pat_completeness auto
termination
  by (relation "measure (\<lambda>(sep, cur, s). length s)") auto

definition split :: "string \<Rightarrow> string \<Rightarrow> string list" where
  "split s sep = split_from sep [] s"

text \<open>
  \<^verbatim>\<open>value[ name ]\<close> for the property names read here (\<^verbatim>\<open>slug\<close> and the \<^verbatim>\<open>key\<close> of a preset
  category), none of which is a built-in member of any value: reading from
  \<^verbatim>\<open>undefined\<close> or \<^verbatim>\<open>null\<close> throws, an object gives its own property, everything else
  \<^verbatim>\<open>undefined\<close>.
\<close>

fun js_prop :: "jsv \<Rightarrow> string \<Rightarrow> error + jsv" where
  "js_prop JUndefined k = Inl (TypeError ''Cannot read properties of undefined'')"
| "js_prop JNull k = Inl (TypeError ''Cannot read properties of null'')"
| "js_prop (JObj ps) k = (case map_of ps k of Some v \<Rightarrow> Inr v | None \<Rightarrow> Inr JUndefined)"
| "js_prop v k = Inr JUndefined"

text \<open>\<^verbatim>\<open>a === b\<close> where \<open>b\<close> is a string or \<^verbatim>\<open>undefined\<close>.\<close>

fun strict_eq :: "jsv \<Rightarrow> jsv \<Rightarrow> bool" where
  "strict_eq (JStr a) (JStr b) = (a = b)"
| "strict_eq JUndefined JUndefined = True"
| "strict_eq a b = False"

subsection \<open>The tables and the library\<close>

definition GLOBAL_CONTEXT :: string where
  "GLOBAL_CONTEXT = ''global''"

text \<open>\<^verbatim>\<open>PRESET_CATEGORIES\<close>: for each category its \<^verbatim>\<open>path\<close> and its \<^verbatim>\<open>key\<close>.\<close>

definition PRESET_CATEGORIES :: "(string \<times> string list \<times> string) list" where
  "PRESET_CATEGORIES =
     [(''color'', [''color'', ''palette''], ''color''),
      (''gradient'', [''color'', ''gradients''], ''gradient''),
      (''fontSize'', [''typography'', ''fontSizes''], ''size''),
      (''fontFamily'', [''typography'', ''fontFamilies''], ''fontFamily''),
      (''fontStyle'', [''typography'', ''fontStyles''], ''slug''),
      (''fontWeight'', [''typography'', ''fontWeights''], ''slug''),
      (''textDecoration'', [''typography'', ''textDecorations''], ''value''),
      (''textTransform'', [''typography'', ''textTransforms''], ''slug'')]"

text \<open>
  lodash is not part of the repository: \<^verbatim>\<open>get\<close>, \<^verbatim>\<open>find\<close> and \<^verbatim>\<open>camelCase\<close> are parameters.
  The callback of \<^verbatim>\<open>find\<close> may throw, and \<^verbatim>\<open>find\<close> passes that on.
\<close>

record lodash =
  lodash_get :: "jsv \<Rightarrow> jsv list \<Rightarrow> jsv"
  lodash_find :: "jsv \<Rightarrow> (jsv \<Rightarrow> error + bool) \<Rightarrow> error + jsv"
  lodash_camelCase :: "jsv \<Rightarrow> string"

text \<open>\<^verbatim>\<open>const [ a, b ] = path\<close>: a missing element is \<^verbatim>\<open>undefined\<close>.\<close>

definition element :: "string list \<Rightarrow> nat \<Rightarrow> jsv" where
  "element xs i = (if i < length xs then JStr (xs ! i) else JUndefined)"

subsection \<open>getValueFromVariable and its two helpers\<close>

text \<open>
  The three functions call each other, and a variable that refers to itself makes them
  do so for ever: the first argument bounds the depth of the calls and \<open>None\<close> says that
  the bound was reached. The guards of \<^verbatim>\<open>getValueFromVariable\<close> use none of it.
\<close>

function (sequential) getValueFromVariable ::
    "lodash \<Rightarrow> nat \<Rightarrow> jsv \<Rightarrow> jsv \<Rightarrow> jsv \<Rightarrow> (error + jsv) option"
  and getValueFromParsed ::
    "lodash \<Rightarrow> nat \<Rightarrow> jsv \<Rightarrow> jsv \<Rightarrow> string list \<Rightarrow> (error + jsv) option"
  and getValueFromPresetVariable ::
    "lodash \<Rightarrow> nat \<Rightarrow> jsv \<Rightarrow> jsv \<Rightarrow> string list \<Rightarrow> (error + jsv) option"
  and getValueFromCustomVariable ::
    "lodash \<Rightarrow> nat \<Rightarrow> jsv \<Rightarrow> jsv \<Rightarrow> string list \<Rightarrow> (error + jsv) option"
where
  "getValueFromVariable L n styles blockName variable =
     (if \<not> truthy variable \<or> \<not> isString variable then Some (Inr JUndefined)
      else if startsWith (str_of variable) ''var:''
      then getValueFromParsed L n styles blockName
             (split (drop (length ''var:'') (str_of variable)) ''|'')
      else if startsWith (str_of variable) ''var(--wp--'' \<and> endsWith (str_of variable) '')''
      then getValueFromParsed L n styles blockName
             (split (slice (str_of variable) (length ''var(--wp--'') (- int (length '')''))) ''--'')
      else Some (Inr JUndefined))"
| "getValueFromParsed L n styles blockName [] = Some (Inr JUndefined)"
| "getValueFromParsed L 0 styles blockName (type # path) =
     (if type = ''preset'' \<or> type = ''custom'' then None else Some (Inr JUndefined))"
| "getValueFromParsed L (Suc n) styles blockName (type # path) =
     (if type = ''preset'' then getValueFromPresetVariable L n styles blockName path
      else if type = ''custom'' then getValueFromCustomVariable L n styles blockName path
      else Some (Inr JUndefined))"
| "getValueFromPresetVariable L n styles blockName path =
     (let presetType = lodash_camelCase L (element path 0);
          slug = element path 1
      in case js_get (\<lambda>v k. False) (map_of PRESET_CATEGORIES) None presetType of
           Absent \<Rightarrow> Some (Inr JUndefined)
         | Inherited \<Rightarrow> Some (Inl (TypeError ''presetData.path is not iterable''))
         | Own (ppath, pkey) \<Rightarrow>
             (let presets =
                nullish_or
                  (lodash_get L styles (blockName # JStr ''settings'' # map JStr ppath))
                  (lodash_get L styles (JStr GLOBAL_CONTEXT # JStr ''settings'' # map JStr ppath))
              in if \<not> truthy presets then Some (Inr JUndefined)
                 else (case lodash_find L presets
                              (\<lambda>preset. map_sum id (\<lambda>v. strict_eq v slug) (js_prop preset ''slug'')) of
                         Inl e \<Rightarrow> Some (Inl e)
                       | Inr presetObject \<Rightarrow>
                           if truthy presetObject
                           then (case js_prop presetObject pkey of
                                   Inl e \<Rightarrow> Some (Inl e)
                                 | Inr result \<Rightarrow>
                                     (case getValueFromVariable L n styles blockName result of
                                        None \<Rightarrow> None
                                      | Some (Inl e) \<Rightarrow> Some (Inl e)
                                      | Some (Inr v) \<Rightarrow> Some (Inr (falsy_or v result))))
                           else Some (Inr JUndefined))))"
| "getValueFromCustomVariable L n styles blockName path =
     (let result =
        nullish_or
          (lodash_get L styles (blockName # JStr ''settings'' # JStr ''custom'' # map JStr path))
          (lodash_get L styles (JStr GLOBAL_CONTEXT # JStr ''settings'' # JStr ''custom'' # map JStr path))
      in case getValueFromVariable L n styles blockName result of
           None \<Rightarrow> None
         | Some (Inl e) \<Rightarrow> Some (Inl e)
         | Some (Inr v) \<Rightarrow> Some (Inr (falsy_or v result)))"
  by pat_completeness auto
termination
  by (relation "measure (\<lambda>x. case x of
        Inl (Inl (L, n, _)) \<Rightarrow> 3 * n + 1
      | Inl (Inr (L, n, _)) \<Rightarrow> 3 * n
      | Inr (Inl (L, n, _)) \<Rightarrow> 3 * n + 2
      | Inr (Inr (L, n, _)) \<Rightarrow> 3 * n + 2)") auto

subsection \<open>An instance of the library and a styles tree, for evaluating the definitions\<close>

text \<open>
  On trees of plain objects and arrays: \<^verbatim>\<open>get\<close> follows own properties, \<^verbatim>\<open>find\<close> returns the
  first element of an array that the callback accepts, and \<^verbatim>\<open>camelCase\<close> leaves a single
  lower-case word as it is.
\<close>

fun plain_get :: "jsv \<Rightarrow> jsv list \<Rightarrow> jsv" where
  "plain_get v [] = v"
| "plain_get (JObj ps) (JStr k # ks) =
     (case map_of ps k of Some v \<Rightarrow> plain_get v ks | None \<Rightarrow> JUndefined)"
| "plain_get v (k # ks) = JUndefined"

fun first_accepted :: "jsv list \<Rightarrow> (jsv \<Rightarrow> error + bool) \<Rightarrow> error + jsv" where
  "first_accepted [] f = Inr JUndefined"
| "first_accepted (x # xs) f =
     (case f x of Inl e \<Rightarrow> Inl e | Inr True \<Rightarrow> Inr x | Inr False \<Rightarrow> first_accepted xs f)"

fun plain_find :: "jsv \<Rightarrow> (jsv \<Rightarrow> error + bool) \<Rightarrow> error + jsv" where
  "plain_find (JArr xs) f = first_accepted xs f"
| "plain_find v f = Inr JUndefined"

definition plain_lodash :: lodash where
  "plain_lodash =
     \<lparr>lodash_get = plain_get, lodash_find = plain_find, lodash_camelCase = str_of\<rparr>"

definition example_styles :: jsv where
  "example_styles =
     JObj [(''global'', JObj [(''settings'', JObj
        [(''color'', JObj [(''palette'', JArr
            [JObj [(''slug'', JStr ''red''), (''color'', JStr ''#f00'')],
             JObj [(''slug'', JStr ''accent''), (''color'', JStr ''var:custom|brand'')]])]),
         (''custom'', JObj [(''brand'', JStr ''#0af''), (''loop'', JStr ''var:custom|loop'')])])])]"

section \<open>Template auto-drafts (_gutenberg_create_auto_draft_for_template)\<close>

text \<open>
  The posts table as the list of its rows, in the order in which \<^verbatim>\<open>WP_Query\<close> goes through
  them. \<open>theme_meta\<close> is the value of the post's \<^verbatim>\<open>theme\<close> meta key, if it has one.
\<close>

record post =
  ID :: nat
  post_type :: string
  post_status :: string
  post_title :: string
  post_name :: string
  post_content :: string
  theme_meta :: "string option"

text \<open>
  The query of the routine: \<^verbatim>\<open>post_type\<close>, \<^verbatim>\<open>post_status\<close> in \<^verbatim>\<open>publish\<close>/\<^verbatim>\<open>auto-draft\<close>,
  \<^verbatim>\<open>title\<close>, and \<^verbatim>\<open>meta_key\<close>/\<^verbatim>\<open>meta_value\<close>; \<^verbatim>\<open>posts_per_page\<close> is 1, so the first row that
  matches is the result (\<open>None\<close> when \<^verbatim>\<open>have_posts()\<close> is false).
\<close>

definition template_matches :: "string \<Rightarrow> string \<Rightarrow> string \<Rightarrow> post \<Rightarrow> bool" where
  "template_matches ptype slug theme p =
     (post_type p = ptype
      \<and> (post_status p = ''publish'' \<or> post_status p = ''auto-draft'')
      \<and> post_title p = slug
      \<and> theme_meta p = Some theme)"

definition template_query :: "string \<Rightarrow> string \<Rightarrow> string \<Rightarrow> post list \<Rightarrow> post option" where
  "template_query ptype slug theme db = find (template_matches ptype slug theme) db"

text \<open>
  \<^verbatim>\<open>wp_insert_post\<close> with no \<^verbatim>\<open>ID\<close> adds a row under a new id; with the \<^verbatim>\<open>ID\<close> of a row (the
  routine passes the post object it has just read) it writes the object's fields to that
  row.
\<close>

definition next_id :: "post list \<Rightarrow> nat" where
  "next_id db = Suc (fold max (map ID db) 0)"

definition wp_insert_new :: "string \<Rightarrow> string \<Rightarrow> string \<Rightarrow> post list \<Rightarrow> post list" where
  "wp_insert_new content slug ptype db =
     db @ [\<lparr>ID = next_id db, post_type = ptype, post_status = ''auto-draft'',
            post_title = slug, post_name = slug, post_content = content,
            theme_meta = None\<rparr>]"

definition wp_insert_existing :: "post \<Rightarrow> post list \<Rightarrow> post list" where
  "wp_insert_existing p db = map (\<lambda>q. if ID q = ID p then p else q) db"

definition gutenberg_create_auto_draft_for_template ::
  "string \<Rightarrow> string \<Rightarrow> string \<Rightarrow> string \<Rightarrow> post list \<Rightarrow> post list" where
  "gutenberg_create_auto_draft_for_template ptype slug theme content db =
     (case template_query ptype slug theme db of
        None \<Rightarrow> wp_insert_new content slug ptype db
      | Some p \<Rightarrow>
          if ''auto-draft'' = post_status p \<and> content \<noteq> post_content p
          then wp_insert_existing (p\<lparr>post_content := content\<rparr>) db
          else db)"

definition example_posts :: "post list" where
  "example_posts =
     [\<lparr>ID = 4, post_type = ''wp_template'', post_status = ''publish'',
        post_title = ''index'', post_name = ''index'', post_content = ''edited by the user'',
        theme_meta = Some ''twentytwenty''\<rparr>,
      \<lparr>ID = 9, post_type = ''wp_template_part'', post_status = ''auto-draft'',
        post_title = ''header'', post_name = ''header'', post_content = ''old header'',
        theme_meta = Some ''twentytwenty''\<rparr>]"

section \<open>Plugins (use, withPlugins)\<close>

text \<open>
  The variable \<^verbatim>\<open>registry\<close> of \<^verbatim>\<open>createRegistry\<close> refers to an object, and \<^verbatim>\<open>use\<close> makes it
  refer to a new one. Objects live in a store, an address being an index into it, so that
  "a new object" and "the old object, unchanged" can be told apart.
\<close>

text \<open>
  A property of a registry object: one of the functions \<^verbatim>\<open>createRegistry\<close> defines, a
  function that a plugin supplied, a value that is not a function (\<^verbatim>\<open>stores\<close>,
  \<^verbatim>\<open>namespaces\<close>), or the function that \<^verbatim>\<open>withPlugins\<close> builds for a key.
\<close>

datatype member = Closure string | PluginFn nat | Data string | Wrapped string

type_synonym obj = "string \<rightharpoonup> member"

record world =
  objects :: "obj list"
  registry_ref :: nat

definition current :: "world \<Rightarrow> obj" where
  "current w = objects w ! registry_ref w"

text \<open>The object literal assigned to \<^verbatim>\<open>registry\<close>, with the two methods added right after it.\<close>

definition registry_object :: obj where
  "registry_object =
     [''getAtomRegistry'' \<mapsto> Closure ''getAtomRegistry'',
      ''registerGenericStore'' \<mapsto> Closure ''registerGenericStore'',
      ''stores'' \<mapsto> Data ''stores'',
      ''namespaces'' \<mapsto> Data ''stores'',
      ''subscribe'' \<mapsto> Closure ''subscribe'',
      ''select'' \<mapsto> Closure ''select'',
      ''__experimentalResolveSelect'' \<mapsto> Closure ''__experimentalResolveSelect'',
      ''dispatch'' \<mapsto> Closure ''dispatch'',
      ''use'' \<mapsto> Closure ''use'',
      ''getStoreAtom'' \<mapsto> Closure ''getStoreAtom'',
      ''__unstableGetAtomResolver'' \<mapsto> Closure ''__unstableGetAtomResolver'',
      ''__unstableSetAtomResolver'' \<mapsto> Closure ''__unstableSetAtomResolver'',
      ''registerStore'' \<mapsto> Closure ''registerStore'',
      ''registerAtomicStore'' \<mapsto> Closure ''registerAtomicStore'']"

definition initial_world :: world where
  "initial_world = \<lparr>objects = [registry_object], registry_ref = 0\<rparr>"

text \<open>
  \<^verbatim>\<open>registry = { ...registry, ...plugin( registry, options ) }; return registry;\<close>
  The plugin is given the current object and returns an object; the spread builds a new
  object in which the plugin's properties win. The result is the new object's address.
\<close>

definition use :: "(obj \<Rightarrow> 'o \<Rightarrow> obj) \<Rightarrow> 'o \<Rightarrow> world \<Rightarrow> nat \<times> world" where
  "use plugin options w =
     (let created = current w ++ plugin (current w) options;
          address = length (objects w)
      in (address, \<lparr>objects = objects w @ [created], registry_ref = address\<rparr>))"

text \<open>
  \<^verbatim>\<open>withPlugins( attributes )\<close>: a non-function is kept, a function is replaced by one that
  calls \<^verbatim>\<open>registry[ key ]\<close> of whatever object \<^verbatim>\<open>registry\<close> refers to at the time of the call.
\<close>

definition is_function :: "member \<Rightarrow> bool" where
  "is_function m = (case m of Data d \<Rightarrow> False | _ \<Rightarrow> True)"

definition withPlugins :: "obj \<Rightarrow> obj" where
  "withPlugins attributes =
     (\<lambda>key. case attributes key of
               None \<Rightarrow> None
             | Some attribute \<Rightarrow> if \<not> is_function attribute then Some attribute else Some (Wrapped key))"

text \<open>What a call of the member \<open>m\<close> runs: a wrapper runs the current registry's member.\<close>

definition callee :: "world \<Rightarrow> member \<Rightarrow> member option" where
  "callee w m = (case m of Wrapped key \<Rightarrow> current w key | _ \<Rightarrow> Some m)"

text \<open>Two plugins, each returning one method.\<close>

definition plugin_one :: "obj \<Rightarrow> unit \<Rightarrow> obj" where
  "plugin_one r options = [''getAnswer'' \<mapsto> PluginFn 1]"

definition plugin_two :: "obj \<Rightarrow> unit \<Rightarrow> obj" where
  "plugin_two r options = [''resetAll'' \<mapsto> PluginFn 2]"

section \<open>The listener bus and the promise selectors\<close>

text \<open>
  \<^verbatim>\<open>listeners\<close> is a variable that refers to an array: \<^verbatim>\<open>subscribe\<close> pushes onto the array it
  refers to, the function that \<^verbatim>\<open>subscribe\<close> returns makes it refer to a new array
  (\<^verbatim>\<open>without\<close> copies), and \<^verbatim>\<open>forEach\<close> keeps going through the array it was called on.
  Arrays therefore live in a store; an address is an index into \<open>arrays\<close>.
\<close>

subsection \<open>State\<close>

text \<open>
  A listener is a function, known by its identity: one that a caller of \<^verbatim>\<open>subscribe\<close> passed
  in, or the closure that the promise with the given number subscribed while waiting.
\<close>

datatype lref = External nat | Waiter nat

text \<open>
  What code outside the registry does, as far as the bus and the store can tell:
  subscribing a listener, calling the function that \<^verbatim>\<open>subscribe\<close> returned for a listener,
  a store announcing a change (it calls \<^verbatim>\<open>globalListener\<close>), throwing, changing the state of
  the store, and calling a selector of the \<^verbatim>\<open>__experimentalResolveSelect\<close> bundle.
\<close>

datatype ('s, 'a) cmd =
    Subscribe nat
  | Unsubscribe nat
  | Notify
  | Throw
  | Update "'s \<Rightarrow> 's"
  | ResolveSelect string 'a

text \<open>
  A promise made by a promise selector: the selector's name and arguments, and whether it
  is pending, fulfilled with a value or rejected with an error.
\<close>

datatype 'v outcome = Pending | Fulfilled 'v | Rejected error

record ('a, 'v) promise =
  selectorName :: string
  args :: 'a
  status :: "'v outcome"

text \<open>
  The state also keeps three logs, which the code does not have. \<open>resolutions\<close>: for every
  call of \<^verbatim>\<open>resolve\<close>, the promise, the value, the store state on which the selector was
  called for that value and the store state on which \<^verbatim>\<open>hasFinished()\<close> was called and
  answered true. \<open>declines\<close>: for every call of a promise's listener in which
  \<^verbatim>\<open>hasFinished()\<close> answered false, the promise and the store state on which it was
  called. \<open>calls\<close>: every call of a listener by \<^verbatim>\<open>forEach\<close>, with the number of the pass.
\<close>

record ('s, 'v) resolution =
  promise_of :: nat
  value_of :: 'v
  called_on :: 's
  checked_on :: 's

record ('s, 'a, 'v) bus =
  arrays :: "lref list list"
  listeners :: nat
  store :: 's
  promises :: "('a, 'v) promise list"
  resolutions :: "('s, 'v) resolution list"
  declines :: "(nat \<times> 's) list"
  passes :: nat
  calls :: "(nat \<times> lref) list"

text \<open>
  What a member of the selector bundle is called with: the arguments of a selector, or,
  for \<^verbatim>\<open>hasFinishedResolution\<close>, the name of a selector and its arguments.
\<close>

datatype 'a arguments = Args 'a | NameArgs string 'a

text \<open>
  The code around the bus: what each external listener does when called (it may look at
  the store), and the selector bundle of the store, \<^verbatim>\<open>select( reducerKey )\<close>: its members by
  name, \<^verbatim>\<open>hasFinishedResolution\<close> among them when the store has one. A member, called on a
  state of the store, returns a value or throws, and may change the store (start a
  resolver); \<open>truthy_value\<close> says which values pass \<^verbatim>\<open>if ( hasFinished() )\<close>. A call of a
  member is a step of the store alone: the announcement of a change it makes is a
  \<open>Notify\<close> of the program around it. Values are not thenables.
\<close>

record ('s, 'a, 'v) code =
  body :: "nat \<Rightarrow> 's \<Rightarrow> ('s, 'a) cmd list"
  selectors :: "string \<Rightarrow> ('a arguments \<Rightarrow> 's \<Rightarrow> (error + 'v) \<times> 's) option"
  truthy_value :: "'v \<Rightarrow> bool"

datatype 'b completion = Returned 'b | Threw 'b

subsection \<open>subscribe\<close>

definition current_listeners :: "('s, 'a, 'v) bus \<Rightarrow> lref list" where
  "current_listeners b = arrays b ! listeners b"

text \<open>lodash's \<^verbatim>\<open>without( array, value )\<close>: a new array, every element equal to the value left out.\<close>

definition without :: "lref list \<Rightarrow> lref \<Rightarrow> lref list" where
  "without array v = filter (\<lambda>x. x \<noteq> v) array"

text \<open>\<^verbatim>\<open>listeners.push( listener )\<close>.\<close>

definition subscribe :: "lref \<Rightarrow> ('s, 'a, 'v) bus \<Rightarrow> ('s, 'a, 'v) bus" where
  "subscribe listener b =
     b\<lparr>arrays := (arrays b)[listeners b := current_listeners b @ [listener]]\<rparr>"

text \<open>
  The function returned by \<^verbatim>\<open>subscribe( listener )\<close>:
  \<^verbatim>\<open>listeners = without( listeners, listener )\<close>.
\<close>

definition unsubscribe :: "lref \<Rightarrow> ('s, 'a, 'v) bus \<Rightarrow> ('s, 'a, 'v) bus" where
  "unsubscribe listener b =
     b\<lparr>arrays := arrays b @ [without (current_listeners b) listener],
       listeners := length (arrays b)\<rparr>"

subsection \<open>Promise selectors\<close>

definition excluded_selectors :: "string list" where
  "excluded_selectors =
     [''getIsResolving'', ''hasStartedResolution'', ''hasFinishedResolution'', ''isResolving'',
      ''getCachedResolvers'']"

text \<open>
  \<^verbatim>\<open>getResolveSelectors( selectors )\<close>: the bundle without the excluded names; what each of
  its functions does is \<open>resolveSelect_call\<close> below.
\<close>

definition getResolveSelectors ::
  "(string \<Rightarrow> ('a arguments \<Rightarrow> 's \<Rightarrow> (error + 'v) \<times> 's) option)
     \<Rightarrow> string \<Rightarrow> ('a arguments \<Rightarrow> 's \<Rightarrow> (error + 'v) \<times> 's) option" where
  "getResolveSelectors sels name = (if name \<in> set excluded_selectors then None else sels name)"

text \<open>
  \<^verbatim>\<open>hasFinished()\<close>, that is \<^verbatim>\<open>selectors.hasFinishedResolution( selectorName, args )\<close>, on
  the store state \<open>s\<close>: the answer (or the error thrown, a \<^verbatim>\<open>TypeError\<close> when the bundle
  has no such member) and the store state afterwards.
\<close>

definition hasFinished ::
  "('s, 'a, 'v) code \<Rightarrow> string \<Rightarrow> 'a \<Rightarrow> 's \<Rightarrow> (error + bool) \<times> 's" where
  "hasFinished C name as s =
     (case selectors C ''hasFinishedResolution'' of
        None \<Rightarrow> (Inl (TypeError ''selectors.hasFinishedResolution is not a function''), s)
      | Some h \<Rightarrow>
          (case h (NameArgs name as) s of
             (Inl e, s') \<Rightarrow> (Inl e, s')
           | (Inr v, s') \<Rightarrow> (Inr (truthy_value C v), s')))"

text \<open>\<^verbatim>\<open>resolve( value )\<close> of promise \<open>p\<close>: a promise that is settled stays as it is.\<close>

definition resolve :: "nat \<Rightarrow> 'v \<Rightarrow> 's \<Rightarrow> 's \<Rightarrow> ('s, 'a, 'v) bus \<Rightarrow> ('s, 'a, 'v) bus" where
  "resolve p v called checked b =
     b\<lparr>promises :=
         (if p < length (promises b) \<and> status (promises b ! p) = Pending
          then (promises b)[p := (promises b ! p)\<lparr>status := Fulfilled v\<rparr>]
          else promises b),
       resolutions := resolutions b @
         [\<lparr>promise_of = p, value_of = v, called_on = called, checked_on = checked\<rparr>]\<rparr>"

text \<open>
  An exception thrown inside the function given to \<^verbatim>\<open>new Promise\<close> rejects the promise,
  unless it is settled already.
\<close>

definition reject :: "nat \<Rightarrow> error \<Rightarrow> ('s, 'a, 'v) bus \<Rightarrow> ('s, 'a, 'v) bus" where
  "reject p e b =
     b\<lparr>promises :=
         (if p < length (promises b) \<and> status (promises b ! p) = Pending
          then (promises b)[p := (promises b ! p)\<lparr>status := Rejected e\<rparr>]
          else promises b)\<rparr>"

text \<open>
  The function \<^verbatim>\<open>( ...args ) => new Promise( ( resolve ) => { ... } )\<close> for the selector
  \<open>sel\<close> named \<open>name\<close>: the promise is created; \<^verbatim>\<open>const result = getResult()\<close>; when
  \<^verbatim>\<open>hasFinished()\<close> the promise is resolved with \<open>result\<close>; otherwise the listener of this
  promise is subscribed. When \<^verbatim>\<open>getResult()\<close> or \<^verbatim>\<open>hasFinished()\<close> throws, the promise is
  rejected. The function itself returns the promise in every case.
\<close>

definition resolveSelect_call ::
  "('s, 'a, 'v) code \<Rightarrow> string \<Rightarrow> ('a arguments \<Rightarrow> 's \<Rightarrow> (error + 'v) \<times> 's) \<Rightarrow> 'a
     \<Rightarrow> ('s, 'a, 'v) bus \<Rightarrow> ('s, 'a, 'v) bus" where
  "resolveSelect_call C name sel as b =
     (let p = length (promises b);
          b1 = b\<lparr>promises := promises b @ [\<lparr>selectorName = name, args = as, status = Pending\<rparr>]\<rparr>
      in case sel (Args as) (store b) of
           (Inl e, s) \<Rightarrow> reject p e (b1\<lparr>store := s\<rparr>)
         | (Inr result, s) \<Rightarrow>
             (case hasFinished C name as s of
                (Inl e, s') \<Rightarrow> reject p e (b1\<lparr>store := s'\<rparr>)
              | (Inr finished, s') \<Rightarrow>
                  if finished
                  then resolve p result (store b) s (b1\<lparr>store := s'\<rparr>)
                  else subscribe (Waiter p) (b1\<lparr>store := s'\<rparr>)))"

text \<open>
  The listener of promise \<open>p\<close>:
  \<^verbatim>\<open>() => { if ( hasFinished() ) { unsubscribe(); resolve( getResult() ); } }\<close>. It is called
  by \<^verbatim>\<open>forEach\<close>, so what it throws ends the pass: when \<^verbatim>\<open>hasFinished()\<close> throws, nothing
  else has happened; when \<^verbatim>\<open>getResult()\<close> throws, the listener is unsubscribed already and
  the promise is left as it was.
\<close>

definition waiter ::
  "('s, 'a, 'v) code \<Rightarrow> nat \<Rightarrow> ('s, 'a, 'v) bus \<Rightarrow> ('s, 'a, 'v) bus completion" where
  "waiter C p b =
     (if p < length (promises b)
      then (let name = selectorName (promises b ! p); as = args (promises b ! p)
            in case hasFinished C name as (store b) of
                 (Inl e, s) \<Rightarrow> Threw (b\<lparr>store := s\<rparr>)
               | (Inr finished, s) \<Rightarrow>
                   if finished
                   then (let b1 = unsubscribe (Waiter p) (b\<lparr>store := s\<rparr>)
                         in case selectors C name of
                              None \<Rightarrow> Threw b1
                            | Some sel \<Rightarrow>
                                (case sel (Args as) s of
                                   (Inl e, s') \<Rightarrow> Threw (b1\<lparr>store := s'\<rparr>)
                                 | (Inr v, s') \<Rightarrow>
                                     Returned (resolve p v s (store b) (b1\<lparr>store := s'\<rparr>))))
                   else Returned (b\<lparr>store := s, declines := declines b @ [(p, store b)]\<rparr>))
      else Returned b)"

subsection \<open>globalListener\<close>

text \<open>
  Listeners may call \<^verbatim>\<open>globalListener\<close> themselves, without end if they like; the first
  argument bounds the nesting of passes, and \<open>None\<close> says that the bound was reached.
  \<^verbatim>\<open>forEach\<close> reads the length of its array once, then takes index after index from that
  same array, skipping an index the array does not have; an exception ends it.
\<close>

function
  exec :: "('s, 'a, 'v) code \<Rightarrow> nat \<Rightarrow> ('s, 'a) cmd list \<Rightarrow> ('s, 'a, 'v) bus
            \<Rightarrow> ('s, 'a, 'v) bus completion option"
  and call_listener :: "('s, 'a, 'v) code \<Rightarrow> nat \<Rightarrow> lref \<Rightarrow> ('s, 'a, 'v) bus
            \<Rightarrow> ('s, 'a, 'v) bus completion option"
  and forEach :: "('s, 'a, 'v) code \<Rightarrow> nat \<Rightarrow> nat \<Rightarrow> nat \<Rightarrow> nat \<Rightarrow> nat \<Rightarrow> ('s, 'a, 'v) bus
            \<Rightarrow> ('s, 'a, 'v) bus completion option"
  and globalListener :: "('s, 'a, 'v) code \<Rightarrow> nat \<Rightarrow> ('s, 'a, 'v) bus
            \<Rightarrow> ('s, 'a, 'v) bus completion option"
where
  "exec C n [] b = Some (Returned b)"
| "exec C n (Subscribe l # cs) b = exec C n cs (subscribe (External l) b)"
| "exec C n (Unsubscribe l # cs) b = exec C n cs (unsubscribe (External l) b)"
| "exec C n (Throw # cs) b = Some (Threw b)"
| "exec C n (Update f # cs) b = exec C n cs (b\<lparr>store := f (store b)\<rparr>)"
| "exec C n (ResolveSelect name as # cs) b =
     (case getResolveSelectors (selectors C) name of
        None \<Rightarrow> Some (Threw b)
      | Some sel \<Rightarrow> exec C n cs (resolveSelect_call C name sel as b))"
| "exec C 0 (Notify # cs) b = None"
| "exec C (Suc n) (Notify # cs) b =
     (case globalListener C n b of
        Some (Returned b') \<Rightarrow> exec C (Suc n) cs b'
      | other \<Rightarrow> other)"
| "call_listener C n (External l) b = exec C n (body C l (store b)) b"
| "call_listener C n (Waiter p) b = Some (waiter C p b)"
| "forEach C n pass array len k b =
     (if k < len
      then (if k < length (arrays b ! array)
            then (case call_listener C n (arrays b ! array ! k)
                         (b\<lparr>calls := calls b @ [(pass, arrays b ! array ! k)]\<rparr>) of
                    Some (Returned b') \<Rightarrow> forEach C n pass array len (Suc k) b'
                  | other \<Rightarrow> other)
            else forEach C n pass array len (Suc k) b)
      else Some (Returned b))"
| "globalListener C n b =
     forEach C n (passes b) (listeners b) (length (current_listeners b)) 0
       (b\<lparr>passes := Suc (passes b)\<rparr>)"
  by pat_completeness auto
termination
  by (relation "inv_image (less_than <*lex*> less_than <*lex*> less_than)
        (\<lambda>x. case x of
           Inl (Inl (C, n, cs, b)) \<Rightarrow> (n, 0, length cs)
         | Inl (Inr (C, n, l, b)) \<Rightarrow> (n, 1, 0)
         | Inr (Inl (C, n, pass, array, len, k, b)) \<Rightarrow> (n, 2, len - k)
         | Inr (Inr (C, n, b)) \<Rightarrow> (n, 3, 0))") auto

definition state_of :: "'b completion \<Rightarrow> 'b" where
  "state_of c = (case c of Returned b \<Rightarrow> b | Threw b \<Rightarrow> b)"

definition has_returned :: "'b completion \<Rightarrow> bool" where
  "has_returned c = (case c of Returned b \<Rightarrow> True | Threw b \<Rightarrow> False)"

text \<open>The listeners that the pass numbered \<open>q\<close> has called, in the order of the calls.\<close>

definition pass_calls :: "nat \<Rightarrow> ('s, 'a, 'v) bus \<Rightarrow> lref list" where
  "pass_calls q b = map snd (filter (\<lambda>x. fst x = q) (calls b))"

text \<open>
  A state of the bus as the code can reach it: \<^verbatim>\<open>listeners\<close> refers to an array that
  exists, and the passes recorded so far are numbered below the next pass.
\<close>

definition wf_bus :: "('s, 'a, 'v) bus \<Rightarrow> bool" where
  "wf_bus b = (listeners b < length (arrays b) \<and> (\<forall>x \<in> set (calls b). fst x < passes b))"








declare forEach.simps [simp del]

declare globalListener.simps [simp del]

text \<open>The bus of a new registry: \<^verbatim>\<open>let listeners = [];\<close>\<close>

definition new_bus :: "'s \<Rightarrow> ('s, 'a, 'v) bus" where
  "new_bus s = \<lparr>arrays = [[]], listeners = 0, store = s, promises = [], resolutions = [],
                declines = [], passes = 0, calls = []\<rparr>"

subsection \<open>A store and some listeners, for evaluating the definitions\<close>

text \<open>
  The store counts: its state is a number, the selector \<^verbatim>\<open>getThing\<close> returns ten times the
  state and starts the resolver when the state is 0 (it becomes 1), and resolution has
  finished once the state is 2 or more (\<^verbatim>\<open>hasFinishedResolution\<close> answers 1 for true and 0
  for false). Listener 0 subscribes listener 1, listener 2 unsubscribes itself and
  listener 3 throws. In \<open>example_code\<close> there is also listener 4: called while the resolver
  runs (state 1), it completes the resolver and has the store announce that.
\<close>

definition quiet_code :: "(nat, unit, nat) code" where
  "quiet_code =
     \<lparr>body = (\<lambda>l s. if l = 0 then [Subscribe 1]
                     else if l = 2 then [Unsubscribe 2]
                     else if l = 3 then [Throw]
                     else []),
      selectors =
        (\<lambda>name. if name = ''getThing''
                 then Some (\<lambda>as s. (Inr (s * 10), if s = 0 then 1 else s))
                 else if name = ''isResolving'' then Some (\<lambda>as s. (Inr s, s))
                 else if name = ''hasFinishedResolution''
                 then Some (\<lambda>as s. (Inr (if 2 \<le> s then 1 else 0), s))
                 else None),
      truthy_value = (\<lambda>v. v \<noteq> 0)\<rparr>"




definition throwing_code :: "(nat, unit, nat) code" where
  "throwing_code =
     quiet_code\<lparr>selectors :=
       (\<lambda>name. if name = ''getThing''
                then Some (\<lambda>as s. if 2 \<le> s then (Inl (TypeError ''no thing''), s)
                                   else (Inr (s * 10), if s = 0 then 1 else s))
                else selectors quiet_code name)\<rparr>"

definition bus_of :: "('s, 'a, 'v) bus completion option \<Rightarrow> ('s, 'a, 'v) bus option" where
  "bus_of r = map_option state_of r"

subsection \<open>Relations between an earlier and a later state of the bus\<close>

definition arrays_grow :: "('s, 'a, 'v) bus \<Rightarrow> ('s, 'a, 'v) bus \<Rightarrow> bool" where
  "arrays_grow b b' =
     (length (arrays b) \<le> length (arrays b')
      \<and> (\<forall>a<length (arrays b). prefix (arrays b ! a) (arrays b' ! a))
      \<and> passes b \<le> passes b')"

definition older_calls_kept :: "('s, 'a, 'v) bus \<Rightarrow> ('s, 'a, 'v) bus \<Rightarrow> bool" where
  "older_calls_kept b b' = (\<forall>q<passes b. pass_calls q b' = pass_calls q b)"

definition later :: "('s, 'a, 'v) bus \<Rightarrow> ('s, 'a, 'v) bus \<Rightarrow> bool" where
  "later b b' = (wf_bus b' \<and> arrays_grow b b' \<and> older_calls_kept b b')"

definition pass_result :: "nat \<Rightarrow> lref list \<Rightarrow> ('s, 'a, 'v) bus \<Rightarrow> ('s, 'a, 'v) bus completion \<Rightarrow> bool" where
  "pass_result q expected b c =
     (if has_returned c then pass_calls q (state_of c) = pass_calls q b @ expected
      else prefix (pass_calls q (state_of c)) (pass_calls q b @ expected))"

definition later_but :: "nat \<Rightarrow> ('s, 'a, 'v) bus \<Rightarrow> ('s, 'a, 'v) bus \<Rightarrow> bool" where
  "later_but pass b b' =
     (wf_bus b' \<and> arrays_grow b b'
      \<and> (\<forall>q<passes b. q \<noteq> pass \<longrightarrow> pass_calls q b' = pass_calls q b))"


subsection \<open>States of the bus used as examples\<close>

definition snapshot_example :: "(nat, unit, nat) bus" where
  "snapshot_example = subscribe (External 2) (subscribe (External 0) (new_bus 0))"

definition twice_example :: "(nat, unit, nat) bus" where
  "twice_example = subscribe (External 5) (subscribe (External 6) (subscribe (External 5) (new_bus 0)))"



section \<open>Properties of the registry\<close>

subsection \<open>Lookup facts\<close>

lemma js_get_own: "obj k = Some v \<Longrightarrow> js_get member obj proto k = Own v"
  by (simp add: js_get_def)

lemma js_get_absent:
  "obj k = None \<Longrightarrow> k \<notin> set Object_prototype_keys \<Longrightarrow> js_get member obj None k = Absent"
  by (simp add: js_get_def)

lemma js_get_inherited:
  "obj k = None \<Longrightarrow> k \<in> set Object_prototype_keys \<Longrightarrow> js_get member obj None k = Inherited"
  by (simp add: js_get_def)

lemma js_get_replaced_prototype:
  "obj ''__proto__'' = None \<Longrightarrow> js_get member obj (Some v) ''__proto__'' = Own v"
  by (simp add: js_get_def)

lemma registry_fields [simp]:
  "stores (set_stores v r) = fst v"
  "storesProto (set_stores v r) = snd v"
  "storesAtoms (set_stores v r) = storesAtoms r"
  "storesAtomsProto (set_stores v r) = storesAtomsProto r"
  "parent (set_stores v r) = parent r"
  "stores (set_storesAtoms w r) = stores r"
  "storesProto (set_storesAtoms w r) = storesProto r"
  "storesAtoms (set_storesAtoms w r) = fst w"
  "storesAtomsProto (set_storesAtoms w r) = snd w"
  "parent (set_storesAtoms w r) = parent r"
  "stores (set_notifying n r) = stores r"
  "storesProto (set_notifying n r) = storesProto r"
  "storesAtoms (set_notifying n r) = storesAtoms r"
  "storesAtomsProto (set_notifying n r) = storesAtomsProto r"
  "parent (set_notifying n r) = parent r"
  by (simp_all add: set_stores_def set_storesAtoms_def set_notifying_def)

text \<open>
  What \<^verbatim>\<open>stores[ key ]\<close> finds, in the terms of \<open>registered\<close> and \<open>stores_inherits\<close>: the
  adapter registered under the key; else something that is not a store, when the name is
  inherited; else nothing.
\<close>

lemma proto_key: "''__proto__'' \<in> set Object_prototype_keys"
  by (simp add: Object_prototype_keys_def)

lemma stores_lookup:
  "js_get adapter_member (stores r) (storesProto r) k =
     (case registered r k of
        Some cfg \<Rightarrow> Own cfg
      | None \<Rightarrow> if stores_inherits r k then Inherited else Absent)"
  using proto_key
  by (auto simp: js_get_def registered_def stores_inherits_def split: option.splits)

text \<open>
  A registration that succeeds leaves the adapter registered under its key, whatever the
  key (\<^verbatim>\<open>stores\<close> gets no own property named \<^verbatim>\<open>__proto__\<close> by assignment).
\<close>

lemma registered_after_registerGenericStore:
  assumes "registerGenericStore k (Obj cfg) r = (None, r')" and "stores r ''__proto__'' = None"
  shows "registered r' k = Some cfg"
  using assms
  by (auto simp: registerGenericStore_def registered_def js_set_def
        split: if_splits option.splits)

subsection \<open>registerGenericStore rejects an incomplete adapter\<close>

text \<open>
  C6. When the adapter is \<^verbatim>\<open>null\<close>/\<^verbatim>\<open>undefined\<close> or one of \<^verbatim>\<open>getSelectors\<close>, \<^verbatim>\<open>getActions\<close>,
  \<^verbatim>\<open>subscribe\<close> is not a function, \<^verbatim>\<open>registerGenericStore\<close> throws (the configuration error
  of the specification is a JavaScript \<^verbatim>\<open>TypeError\<close>) and the whole registry state, the
  store map included, is what it was before the call: nothing is added or replaced under
  the key and no other store is touched.
\<close>

theorem registerGenericStore_incomplete_adapter_throws_unchanged:
  assumes "arg = Nullish \<or> (\<exists>cfg. arg = Obj cfg \<and>
      (getSelectors cfg = None \<or> getActions cfg = None \<or> config_subscribe cfg = None))"
  shows "\<exists>msg. registerGenericStore k arg r = (Some (TypeError msg), r)"
  using assms by (auto simp: registerGenericStore_def split: jsarg.splits option.splits)

theorem registerGenericStore_incomplete_adapter_witness:
  "\<exists>msg. registerGenericStore ''broken'' (Obj broken_adapter)
           (register_all [(''core/data'', Obj core_adapter)] (empty_registry None))
         = (Some (TypeError msg),
            register_all [(''core/data'', Obj core_adapter)] (empty_registry None))"
  by (rule registerGenericStore_incomplete_adapter_throws_unchanged)
     (simp add: broken_adapter_def)

subsection \<open>Every registered store has its atom\<close>

lemma atoms_cover_empty: "atoms_cover (empty_registry p)"
  by (simp add: atoms_cover_def empty_registry_def)

lemma atoms_cover_registerGenericStore:
  assumes "atoms_cover r"
  shows "atoms_cover (snd (registerGenericStore k arg r))"
proof (cases arg)
  case Nullish
  then show ?thesis using assms by (simp add: registerGenericStore_def)
next
  case (Obj cfg)
  show ?thesis
  proof (cases "config_subscribe cfg")
    case None
    then show ?thesis using assms Obj by (simp add: registerGenericStore_def)
  next
    case (Some sub)
    then show ?thesis using assms Obj
      by (auto simp: registerGenericStore_def atoms_cover_def js_set_def)
  qed
qed

lemma atoms_cover_register_all:
  "atoms_cover r \<Longrightarrow> atoms_cover (register_all ops r)"
proof (induction ops arbitrary: r)
  case Nil
  then show ?case by simp
next
  case (Cons op ops)
  obtain k arg where op: "op = (k, arg)" by (cases op)
  from Cons.prems have "atoms_cover (snd (registerGenericStore k arg r))"
    by (rule atoms_cover_registerGenericStore)
  then show ?case using Cons.IH op by simp
qed

lemma getStoreAtom_own: "storesAtoms r k = Some a \<Longrightarrow> getStoreAtom r k = Inr (Atom a)"
  by (cases r) (simp add: js_get_def)

text \<open>
  C8. After any sequence of \<^verbatim>\<open>registerGenericStore\<close> calls on a fresh registry (keys other
  than \<^verbatim>\<open>__proto__\<close>, calls that throw included), every key of \<^verbatim>\<open>stores\<close> is a key of
  \<^verbatim>\<open>storesAtoms\<close>, holding the atom created for that key from the store's \<^verbatim>\<open>subscribe\<close>, and
  \<^verbatim>\<open>getStoreAtom\<close> returns that local atom; it returns the same with any other parent, or
  none, in its place.
\<close>

theorem registered_store_has_local_atom:
  assumes "''__proto__'' \<notin> fst ` set ops"
    and "stores (register_all ops (empty_registry p)) k = Some cfg"
  shows "\<exists>sub. config_subscribe cfg = Some sub
           \<and> storesAtoms (register_all ops (empty_registry p)) k = Some (createStoreAtom sub k)
           \<and> getStoreAtom (register_all ops (empty_registry p)) k = Inr (Atom (createStoreAtom sub k))
           \<and> (\<forall>q. getStoreAtom (set_parent q (register_all ops (empty_registry p))) k
                  = Inr (Atom (createStoreAtom sub k)))"
proof -
  have "atoms_cover (register_all ops (empty_registry p))"
    by (rule atoms_cover_register_all) (rule atoms_cover_empty)
  with assms(2) obtain sub where
    "config_subscribe cfg = Some sub"
    "storesAtoms (register_all ops (empty_registry p)) k = Some (createStoreAtom sub k)"
    unfolding atoms_cover_def by blast
  then show ?thesis
    by (auto intro: getStoreAtom_own simp: set_parent_def js_get_def)
qed

theorem registered_store_has_local_atom_witness:
  "\<exists>sub. config_subscribe counter_adapter = Some sub
     \<and> storesAtoms (register_all example_registrations (empty_registry None)) ''counter''
         = Some (createStoreAtom sub ''counter'')
     \<and> getStoreAtom (register_all example_registrations (empty_registry None)) ''counter''
         = Inr (Atom (createStoreAtom sub ''counter''))
     \<and> (\<forall>q. getStoreAtom (set_parent q (register_all example_registrations (empty_registry None)))
              ''counter''
            = Inr (Atom (createStoreAtom sub ''counter'')))"
  by (rule registered_store_has_local_atom)
     (simp_all add: example_registrations_def registerGenericStore_def empty_registry_def
        js_set_def core_adapter_def broken_adapter_def counter_adapter_def)

subsection \<open>select\<close>

lemma select_unknown_no_parent:
  "registered r k = None \<Longrightarrow> \<not> stores_inherits r k \<Longrightarrow> parent r = None
   \<Longrightarrow> select r k = (Inr Undefined, r)"
  using stores_lookup[of r k] by (cases r) simp

lemma select_delegates_to_parent:
  "registered r k = None \<Longrightarrow> \<not> stores_inherits r k \<Longrightarrow> parent r = Some p
   \<Longrightarrow> fst (select r k) = fst (select (unstableSetAtomResolver (atomResolver r) p) k)"
  using stores_lookup[of r k] by (cases r) (simp split: prod.splits)

lemma select_local_no_resolver:
  "stores r k = Some cfg \<Longrightarrow> getSelectors cfg = Some b \<Longrightarrow> atomResolver r = None
   \<Longrightarrow> select r k = (Inr (Value b), r)"
  by (cases r) (simp add: js_get_def call_getSelectors_def)

lemma select_local:
  assumes "stores r k = Some cfg" "getSelectors cfg = Some b" "atoms_cover r"
  shows "fst (select r k) = Inr (Value b)"
proof -
  obtain st at res lg nt par sp ap where r: "r = Registry st at res lg nt par sp ap" by (cases r)
  from assms(1,3) obtain a where a: "storesAtoms r k = Some a"
    unfolding atoms_cover_def by blast
  have "getStoreAtom r k = Inr (Atom a)" using a by (rule getStoreAtom_own)
  then show ?thesis using assms(1,2) r
    by (cases res) (simp_all add: js_get_def call_getSelectors_def)
qed

lemma atoms_cover_unstableSetAtomResolver:
  "atoms_cover (unstableSetAtomResolver v r) = atoms_cover r"
  by (simp add: atoms_cover_def unstableSetAtomResolver_def)

text \<open>
  The part of C4 that holds: the child of a parent that has \<open>k\<close> registered, with \<open>k\<close>
  neither registered in the child nor a name that its \<^verbatim>\<open>stores\<close> inherits, gets the
  parent's selector bundle.
\<close>

lemma select_child_returns_parent_bundle:
  assumes "registered r k = None" "\<not> stores_inherits r k" "parent r = Some p"
    and "stores p k = Some cfg" "getSelectors cfg = Some b" "atoms_cover p"
  shows "fst (select r k) = Inr (Value b)"
proof -
  have "fst (select (unstableSetAtomResolver (atomResolver r) p) k) = Inr (Value b)"
    using assms(4,5,6)
    by (intro select_local[where cfg = cfg])
       (simp_all add: atoms_cover_unstableSetAtomResolver, simp add: unstableSetAtomResolver_def)
  then show ?thesis using select_delegates_to_parent[OF assms(1-3)] by simp
qed

text \<open>
  C4, where the code departs from it: a key that \<^verbatim>\<open>stores\<close> does not hold but
  \<^verbatim>\<open>Object.prototype\<close> does is truthy in \<^verbatim>\<open>if ( store )\<close>, and \<^verbatim>\<open>store.getSelectors()\<close>
  throws. For the registry with no store and no parent, \<^verbatim>\<open>select( 'toString' )\<close> raises a
  \<^verbatim>\<open>TypeError\<close> instead of returning \<^verbatim>\<open>undefined\<close>.
\<close>

theorem select_inherited_key_throws:
  "select (empty_registry None :: (nat, nat) registry) ''toString''
     = (Inl (TypeError ''store.getSelectors is not a function''), empty_registry None)"
  by (simp add: empty_registry_def js_get_def Object_prototype_keys_def call_getSelectors_def)

subsection \<open>dispatch\<close>





lemma example_proto_fields:
  "registered example_proto ''__proto__'' = Some counter_adapter"
  "registered example_proto ''toString'' = Some core_adapter"
  "registered example_proto ''getActions'' = None"
  "stores_inherits example_proto ''getActions''"
  by (simp_all add: example_proto_def registerGenericStore_def empty_registry_def js_set_def
        core_adapter_def counter_adapter_def registered_def stores_inherits_def adapter_member_def)


text \<open>
  Where the key is a name that \<^verbatim>\<open>stores\<close> inherits, \<^verbatim>\<open>dispatch\<close> throws: what it found is
  not a store.
\<close>

lemma dispatch_inherited_throws:
  "registered r k = None \<Longrightarrow> stores_inherits r k
   \<Longrightarrow> dispatch r k = Inl (TypeError ''store.getActions is not a function'')"
  using stores_lookup[of r k] by (cases r) (simp add: call_getActions_def)

lemma dispatch_inherited_examples:
  "dispatch (empty_registry None :: (nat, nat) registry) ''toString''
     = Inl (TypeError ''store.getActions is not a function'')"
  "dispatch example_proto ''getActions'' = Inl (TypeError ''store.getActions is not a function'')"
  by (simp add: empty_registry_def js_get_def Object_prototype_keys_def call_getActions_def,
      simp add: dispatch_inherited_throws example_proto_fields)

section \<open>Properties of getValueFromVariable\<close>

text \<open>
  C10. Whenever \<open>variable\<close> is falsy, or is not a string, or is a string that neither
  starts with \<^verbatim>\<open>var:\<close> nor both starts with \<^verbatim>\<open>var(--wp--\<close> and ends with \<^verbatim>\<open>)\<close>,
  \<^verbatim>\<open>getValueFromVariable\<close> returns \<^verbatim>\<open>undefined\<close>: it does not throw and it needs no
  recursive call (any depth bound, zero included, gives the result).
\<close>

theorem getValueFromVariable_not_a_reference:
  assumes "\<not> truthy variable \<or> \<not> isString variable
           \<or> (\<not> startsWith (str_of variable) ''var:''
              \<and> \<not> (startsWith (str_of variable) ''var(--wp--'' \<and> endsWith (str_of variable) '')''))"
  shows "getValueFromVariable L n styles blockName variable = Some (Inr JUndefined)"
  using assms by auto

theorem getValueFromVariable_not_a_reference_witness:
  "getValueFromVariable plain_lodash 0 example_styles (JStr ''core/paragraph'') (JStr ''#ff0000'')
     = Some (Inr JUndefined)
   \<and> getValueFromVariable plain_lodash 0 example_styles (JStr ''core/paragraph'') (JStr [])
     = Some (Inr JUndefined)
   \<and> getValueFromVariable plain_lodash 0 example_styles (JStr ''core/paragraph'') (JNum 12)
     = Some (Inr JUndefined)
   \<and> getValueFromVariable plain_lodash 0 example_styles (JStr ''core/paragraph'')
       (JStr ''var(--wp--preset--color--red'')
     = Some (Inr JUndefined)"
  using getValueFromVariable_not_a_reference
          [of "JStr ''#ff0000''" plain_lodash 0 example_styles "JStr ''core/paragraph''"]
        getValueFromVariable_not_a_reference
          [of "JStr []" plain_lodash 0 example_styles "JStr ''core/paragraph''"]
        getValueFromVariable_not_a_reference
          [of "JNum 12" plain_lodash 0 example_styles "JStr ''core/paragraph''"]
        getValueFromVariable_not_a_reference
          [of "JStr ''var(--wp--preset--color--red''" plain_lodash 0 example_styles
              "JStr ''core/paragraph''"]
  by (simp add: startsWith_def endsWith_def)

text \<open>References that do resolve, and one that refers to itself.\<close>

lemma getValueFromVariable_examples:
  "getValueFromVariable plain_lodash 1 example_styles (JStr ''core/paragraph'')
     (JStr ''var:preset|color|red'') = Some (Inr (JStr ''#f00''))"
  "getValueFromVariable plain_lodash 2 example_styles (JStr ''core/paragraph'')
     (JStr ''var(--wp--preset--color--accent)'') = Some (Inr (JStr ''#0af''))"
  "getValueFromVariable plain_lodash 5 example_styles (JStr ''core/paragraph'')
     (JStr ''var:custom|loop'') = None"
  "getValueFromVariable plain_lodash 1 example_styles (JStr ''core/paragraph'')
     (JStr ''var:preset|toString|red'') = Some (Inl (TypeError ''presetData.path is not iterable''))"
  by (simp_all add: startsWith_def endsWith_def split_def slice_def element_def plain_lodash_def
        example_styles_def PRESET_CATEGORIES_def js_get_def nullish_or_def falsy_or_def
        GLOBAL_CONTEXT_def Object_prototype_keys_def eval_nat_numeral)

section \<open>Properties of the auto-draft routine\<close>

lemma find_in_list: "find P xs = Some x \<Longrightarrow> \<exists>i<length xs. xs ! i = x \<and> P x"
  by (auto simp: find_Some_iff)

lemma wp_insert_existing_nth:
  assumes "distinct (map ID db)" "i < length db" "j < length db" "db ! j = p"
  shows "wp_insert_existing (p\<lparr>post_content := c\<rparr>) db ! i
           = (if i = j then p\<lparr>post_content := c\<rparr> else db ! i)"
proof -
  have "ID (db ! i) = ID (db ! j) \<longleftrightarrow> i = j"
    using assms(1-3) by (metis distinct_conv_nth length_map nth_map)
  then show ?thesis using assms(2,4) by (simp add: wp_insert_existing_def)
qed

lemma auto_draft_length:
  "length (gutenberg_create_auto_draft_for_template ptype slug theme content db)
     = (if template_query ptype slug theme db = None then Suc (length db) else length db)"
  by (simp add: gutenberg_create_auto_draft_for_template_def wp_insert_new_def
        wp_insert_existing_def split: option.splits)

lemma auto_draft_row:
  assumes "distinct (map ID db)" "i < length db"
  shows "gutenberg_create_auto_draft_for_template ptype slug theme content db ! i = db ! i
       \<or> (post_status (db ! i) = ''auto-draft'' \<and> post_content (db ! i) \<noteq> content
          \<and> template_matches ptype slug theme (db ! i)
          \<and> gutenberg_create_auto_draft_for_template ptype slug theme content db ! i
              = (db ! i)\<lparr>post_content := content\<rparr>)"
proof (cases "template_query ptype slug theme db")
  case None
  then show ?thesis using assms(2)
    by (simp add: gutenberg_create_auto_draft_for_template_def wp_insert_new_def nth_append)
next
  case (Some p)
  then obtain j where j: "j < length db" "db ! j = p" "template_matches ptype slug theme p"
    unfolding template_query_def by (auto dest: find_in_list)
  show ?thesis
  proof (cases "''auto-draft'' = post_status p \<and> content \<noteq> post_content p")
    case False
    then show ?thesis using Some
      by (auto simp: gutenberg_create_auto_draft_for_template_def)
  next
    case True
    then have "gutenberg_create_auto_draft_for_template ptype slug theme content db
                 = wp_insert_existing (p\<lparr>post_content := content\<rparr>) db"
      using Some by (simp add: gutenberg_create_auto_draft_for_template_def)
    then show ?thesis
      using wp_insert_existing_nth[OF assms(1,2) j(1,2), of content] True j by auto
  qed
qed

text \<open>
  C9. With the rows' ids distinct, the routine leaves every existing row whose status is
  \<^verbatim>\<open>publish\<close> as it is; a row that it changes had the status \<^verbatim>\<open>auto-draft\<close> and a content
  other than the template's, matched the query, and differs afterwards in its content
  only; and the table grows, by one row of status \<^verbatim>\<open>auto-draft\<close>, only when no row matched
  the query.
\<close>

theorem auto_draft_never_touches_published:
  assumes "distinct (map ID db)"
  shows "(\<forall>i<length db.
            (post_status (db ! i) = ''publish'' \<longrightarrow>
               gutenberg_create_auto_draft_for_template ptype slug theme content db ! i = db ! i)
          \<and> (gutenberg_create_auto_draft_for_template ptype slug theme content db ! i \<noteq> db ! i \<longrightarrow>
               post_status (db ! i) = ''auto-draft'' \<and> post_content (db ! i) \<noteq> content
               \<and> gutenberg_create_auto_draft_for_template ptype slug theme content db ! i
                   = (db ! i)\<lparr>post_content := content\<rparr>))
       \<and> (length (gutenberg_create_auto_draft_for_template ptype slug theme content db) = length db
          \<or> (\<forall>p \<in> set db. \<not> template_matches ptype slug theme p)
             \<and> gutenberg_create_auto_draft_for_template ptype slug theme content db
                 = db @ [last (gutenberg_create_auto_draft_for_template ptype slug theme content db)]
             \<and> post_status (last (gutenberg_create_auto_draft_for_template ptype slug theme content db))
                 = ''auto-draft'')"
proof (intro conjI allI impI)
  fix i assume i: "i < length db"
  note row = auto_draft_row[OF assms i, of ptype slug theme content]
  show "gutenberg_create_auto_draft_for_template ptype slug theme content db ! i = db ! i"
    if "post_status (db ! i) = ''publish''"
    using row that by auto
  show "post_status (db ! i) = ''auto-draft''"
    and "post_content (db ! i) \<noteq> content"
    and "gutenberg_create_auto_draft_for_template ptype slug theme content db ! i
           = (db ! i)\<lparr>post_content := content\<rparr>"
    if "gutenberg_create_auto_draft_for_template ptype slug theme content db ! i \<noteq> db ! i"
    using row that by auto
next
  show "length (gutenberg_create_auto_draft_for_template ptype slug theme content db) = length db
        \<or> (\<forall>p \<in> set db. \<not> template_matches ptype slug theme p)
           \<and> gutenberg_create_auto_draft_for_template ptype slug theme content db
               = db @ [last (gutenberg_create_auto_draft_for_template ptype slug theme content db)]
           \<and> post_status (last (gutenberg_create_auto_draft_for_template ptype slug theme content db))
               = ''auto-draft''"
  proof (cases "template_query ptype slug theme db")
    case None
    then have "\<forall>p \<in> set db. \<not> template_matches ptype slug theme p"
      by (simp add: template_query_def find_None_iff)
    then show ?thesis using None
      by (simp add: gutenberg_create_auto_draft_for_template_def wp_insert_new_def)
  next
    case (Some p)
    then show ?thesis by (simp add: auto_draft_length)
  qed
qed

theorem auto_draft_never_touches_published_witness:
  "distinct (map ID example_posts)
   \<and> post_status (example_posts ! 0) = ''publish''
   \<and> gutenberg_create_auto_draft_for_template
         ''wp_template_part'' ''header'' ''twentytwenty'' ''new header'' example_posts ! 0
       = example_posts ! 0
   \<and> gutenberg_create_auto_draft_for_template
         ''wp_template_part'' ''header'' ''twentytwenty'' ''new header'' example_posts ! 1
       = (example_posts ! 1)\<lparr>post_content := ''new header''\<rparr>
   \<and> length (gutenberg_create_auto_draft_for_template
         ''wp_template_part'' ''header'' ''twentytwenty'' ''new header'' example_posts)
       = length example_posts"
proof -
  let ?G = "gutenberg_create_auto_draft_for_template
         ''wp_template_part'' ''header'' ''twentytwenty'' ''new header'' example_posts"
  have d: "distinct (map ID example_posts)"
    by (simp add: example_posts_def)
  have l0: "0 < length example_posts" and l1: "1 < length example_posts"
    and pub: "post_status (example_posts ! 0) = ''publish''"
    by (simp_all add: example_posts_def)
  have q: "template_matches ''wp_template_part'' ''header'' ''twentytwenty'' (example_posts ! 1)"
    by (simp add: example_posts_def template_matches_def)
  have c: "post_content (?G ! 1) \<noteq> post_content (example_posts ! 1)"
    by (simp add: example_posts_def gutenberg_create_auto_draft_for_template_def
          template_query_def template_matches_def wp_insert_existing_def)
  then have c': "?G ! 1 \<noteq> example_posts ! 1" by auto
  note t = auto_draft_never_touches_published
            [OF d, of "''wp_template_part''" "''header''" "''twentytwenty''" "''new header''"]
  from t l0 pub have r0: "?G ! 0 = example_posts ! 0" by blast
  from t l1 c' have r1: "?G ! 1 = (example_posts ! 1)\<lparr>post_content := ''new header''\<rparr>" by blast
  from t q l1 have r2: "length ?G = length example_posts"
    by (meson nth_mem)
  show ?thesis using d pub r0 r1 r2 by blast
qed

text \<open>A published template is found and left alone; a template with no post gets one.\<close>

lemma auto_draft_examples:
  "gutenberg_create_auto_draft_for_template
     ''wp_template'' ''index'' ''twentytwenty'' ''from the theme file'' example_posts
   = example_posts"
  "length (gutenberg_create_auto_draft_for_template
     ''wp_template'' ''single'' ''twentytwenty'' ''from the theme file'' example_posts) = 3"
  by (simp_all add: example_posts_def gutenberg_create_auto_draft_for_template_def
        template_query_def template_matches_def wp_insert_new_def)

section \<open>Properties of use\<close>

lemma use_result:
  "fst (use plugin options w) = length (objects w)"
  "registry_ref (snd (use plugin options w)) = length (objects w)"
  "objects (snd (use plugin options w)) = objects w @ [current w ++ plugin (current w) options]"
  "current (snd (use plugin options w)) = current w ++ plugin (current w) options"
  by (simp_all add: use_def current_def Let_def)

lemma use_keeps_old_objects:
  "a < length (objects w) \<Longrightarrow> objects (snd (use plugin options w)) ! a = objects w ! a"
  by (simp add: use_result nth_append)

text \<open>
  C7. Two calls of \<^verbatim>\<open>use\<close>, the first plugin returning the one new method \<open>m1\<close> and the
  second the one new method \<open>m2\<close>: the object returned by the second call is the one
  \<^verbatim>\<open>registry\<close> now refers to, it has both methods and every property of the original
  registry object, and it is a new object: the original object and the result of the
  first call are still in the store with the properties they had.
\<close>

theorem use_twice_exposes_both_methods:
  assumes "registry_ref w < length (objects w)"
    and "use plugin1 options1 w = (a1, w1)"
    and "use plugin2 options2 w1 = (a2, w2)"
    and "plugin1 (current w) options1 = [m1 \<mapsto> f1]"
    and "plugin2 (current w1) options2 = [m2 \<mapsto> f2]"
    and "m1 \<notin> dom (current w)" "m2 \<notin> dom (current w)" "m1 \<noteq> m2"
  shows "registry_ref w2 = a2
       \<and> (objects w2 ! a2) m1 = Some f1
       \<and> (objects w2 ! a2) m2 = Some f2
       \<and> (\<forall>k \<in> dom (current w). (objects w2 ! a2) k = current w k)
       \<and> a2 \<noteq> a1 \<and> a1 \<noteq> registry_ref w \<and> a2 \<noteq> registry_ref w
       \<and> objects w2 ! registry_ref w = current w
       \<and> objects w2 ! a1 = current w ++ [m1 \<mapsto> f1]"
proof -
  have w1: "w1 = snd (use plugin1 options1 w)" and a1: "a1 = length (objects w)"
    using assms(2) use_result(1)[of plugin1 options1 w] by auto
  have w2: "w2 = snd (use plugin2 options2 w1)" and a2: "a2 = length (objects w1)"
    using assms(3) use_result(1)[of plugin2 options2 w1] by auto
  have len1: "length (objects w1) = Suc (length (objects w))"
    by (simp add: w1 use_result)
  have cur1: "current w1 = current w ++ [m1 \<mapsto> f1]"
    by (simp add: w1 use_result assms(4))
  have "current w2 = current w1 ++ [m2 \<mapsto> f2]"
    by (simp add: w2 use_result assms(5))
  then have cur2: "current w2 = current w ++ [m1 \<mapsto> f1] ++ [m2 \<mapsto> f2]"
    by (simp add: cur1)
  have ref2: "registry_ref w2 = a2"
    by (simp add: w2 a2 use_result)
  then have at2: "objects w2 ! a2 = current w ++ [m1 \<mapsto> f1] ++ [m2 \<mapsto> f2]"
    using cur2 by (simp add: current_def)
  have old0: "objects w2 ! registry_ref w = current w"
    using assms(1) len1 by (simp add: w2 w1 use_keeps_old_objects current_def)
  have old1: "objects w2 ! a1 = current w ++ [m1 \<mapsto> f1]"
    using len1 cur1 by (simp add: w2 a1 use_keeps_old_objects) (simp add: w1 use_result)
  have keep: "\<forall>k \<in> dom (current w). (objects w2 ! a2) k = current w k"
    using assms(6,7) by (auto simp: at2)
  show ?thesis
    using ref2 at2 old0 old1 keep assms(1,8) a1 a2 len1 by simp
qed

lemma registry_object_dom:
  "''getAnswer'' \<notin> dom registry_object" "''resetAll'' \<notin> dom registry_object"
  "''select'' \<in> dom registry_object"
  by (simp_all add: registry_object_def)

lemma initial_world_current: "current initial_world = registry_object"
  by (simp add: initial_world_def current_def)

theorem use_twice_exposes_both_methods_witness:
  "registry_ref (snd (use plugin_two () (snd (use plugin_one () initial_world)))) = 2
   \<and> (objects (snd (use plugin_two () (snd (use plugin_one () initial_world)))) ! 2) ''getAnswer''
       = Some (PluginFn 1)
   \<and> (objects (snd (use plugin_two () (snd (use plugin_one () initial_world)))) ! 2) ''resetAll''
       = Some (PluginFn 2)
   \<and> (objects (snd (use plugin_two () (snd (use plugin_one () initial_world)))) ! 2) ''select''
       = Some (Closure ''select'')
   \<and> objects (snd (use plugin_two () (snd (use plugin_one () initial_world)))) ! 0
       = registry_object"
proof -
  let ?w1 = "snd (use plugin_one () initial_world)"
  let ?w2 = "snd (use plugin_two () ?w1)"
  have a1: "use plugin_one () initial_world = (1, ?w1)"
    by (simp add: use_def initial_world_def Let_def)
  have a2: "use plugin_two () ?w1 = (2, ?w2)"
    by (simp add: use_def initial_world_def Let_def)
  have r: "registry_ref initial_world < length (objects initial_world)"
    by (simp add: initial_world_def)
  have sel: "registry_object ''select'' = Some (Closure ''select'')"
    by (simp add: registry_object_def)
  note t = use_twice_exposes_both_methods
    [OF r a1 a2, of "''getAnswer''" "PluginFn 1" "''resetAll''" "PluginFn 2"]
  have "registry_ref ?w2 = 2
       \<and> (objects ?w2 ! 2) ''getAnswer'' = Some (PluginFn 1)
       \<and> (objects ?w2 ! 2) ''resetAll'' = Some (PluginFn 2)
       \<and> (\<forall>k \<in> dom (current initial_world). (objects ?w2 ! 2) k = current initial_world k)
       \<and> 2 \<noteq> (1::nat) \<and> 1 \<noteq> registry_ref initial_world \<and> 2 \<noteq> registry_ref initial_world
       \<and> objects ?w2 ! registry_ref initial_world = current initial_world
       \<and> objects ?w2 ! 1 = current initial_world ++ [''getAnswer'' \<mapsto> PluginFn 1]"
    by (rule t) (simp_all add: plugin_one_def plugin_two_def initial_world_current registry_object_dom)
  then show ?thesis
    using registry_object_dom(3) sel
    by (simp add: initial_world_current) (simp add: initial_world_def)
qed

text \<open>
  The object that \<^verbatim>\<open>createRegistry\<close> returned has the original keys only; its wrappers
  reach the members of the current registry object, \<^verbatim>\<open>use\<close> among them.
\<close>

lemma registry_handle_after_use:
  "withPlugins registry_object ''use'' = Some (Wrapped ''use'')"
  "withPlugins registry_object ''stores'' = Some (Data ''stores'')"
  "withPlugins registry_object ''getAnswer'' = None"
  "callee (snd (use plugin_one () initial_world)) (Wrapped ''use'') = Some (Closure ''use'')"
  "callee (snd (use plugin_one () initial_world)) (Wrapped ''getAnswer'') = Some (PluginFn 1)"
  by (simp_all add: withPlugins_def registry_object_def is_function_def callee_def use_result
        initial_world_current plugin_one_def)

section \<open>Properties of the listener bus\<close>

lemma state_of_simps [simp]: "state_of (Returned b) = b" "state_of (Threw b) = b"
  by (simp_all add: state_of_def)

lemma has_returned_simps [simp]: "has_returned (Returned b) = True" "has_returned (Threw b) = False"
  by (simp_all add: has_returned_def)

lemma later_refl: "wf_bus b \<Longrightarrow> later b b"
  by (simp add: later_def arrays_grow_def older_calls_kept_def)

lemma later_trans: "later b b' \<Longrightarrow> later b' b'' \<Longrightarrow> later b b''"
  unfolding later_def arrays_grow_def older_calls_kept_def
  by (auto intro: prefix_order.trans)

lemma later_subscribe: "wf_bus b \<Longrightarrow> later b (subscribe l b)"
  by (auto simp: later_def wf_bus_def arrays_grow_def older_calls_kept_def subscribe_def
        current_listeners_def pass_calls_def nth_list_update)

lemma later_unsubscribe: "wf_bus b \<Longrightarrow> later b (unsubscribe l b)"
  by (auto simp: later_def wf_bus_def arrays_grow_def older_calls_kept_def unsubscribe_def
        pass_calls_def nth_append)

lemma later_same:
  "wf_bus b \<Longrightarrow> arrays b' = arrays b \<Longrightarrow> listeners b' = listeners b \<Longrightarrow> passes b' = passes b
   \<Longrightarrow> calls b' = calls b \<Longrightarrow> later b b'"
  by (auto simp: later_def wf_bus_def arrays_grow_def older_calls_kept_def pass_calls_def)

lemma later_store: "wf_bus b \<Longrightarrow> later b (b\<lparr>store := s\<rparr>)"
  by (rule later_same) simp_all

lemma later_resolve: "wf_bus b \<Longrightarrow> later b (resolve p v s s' b)"
  by (rule later_same) (simp_all add: resolve_def)

lemma later_reject: "wf_bus b \<Longrightarrow> later b (reject p e b)"
  by (rule later_same) (simp_all add: reject_def)

lemma later_resolveSelect_call: "wf_bus b \<Longrightarrow> later b (resolveSelect_call C name sel as b)"
proof -
  assume wf: "wf_bus b"
  let ?b1 = "b\<lparr>promises := promises b @ [\<lparr>selectorName = name, args = as, status = Pending\<rparr>]\<rparr>"
  have 1: "later b (?b1\<lparr>store := s\<rparr>)" for s
    using wf by (rule later_same) simp_all
  then have wf1: "wf_bus (?b1\<lparr>store := s\<rparr>)" for s by (simp add: later_def)
  have rej: "later b (reject p e (?b1\<lparr>store := s\<rparr>))" for p e s
    by (rule later_trans[OF 1 later_reject[OF wf1]])
  have res: "later b (resolve p v s1 s2 (?b1\<lparr>store := s\<rparr>))" for p v s1 s2 s
    by (rule later_trans[OF 1 later_resolve[OF wf1]])
  have sub: "later b (subscribe l (?b1\<lparr>store := s\<rparr>))" for l s
    by (rule later_trans[OF 1 later_subscribe[OF wf1]])
  show ?thesis
    using rej res sub
    by (simp add: resolveSelect_call_def Let_def split: prod.splits sum.splits)
qed

lemma later_waiter: "wf_bus b \<Longrightarrow> later b (state_of (waiter C p b))"
proof -
  assume wf: "wf_bus b"
  have 1: "later b (b\<lparr>store := s\<rparr>)" for s using wf by (rule later_store)
  then have wf1: "wf_bus (b\<lparr>store := s\<rparr>)" for s by (simp add: later_def)
  have 2: "later b (b\<lparr>store := s, declines := d\<rparr>)" for s d
    using wf by (rule later_same) simp_all
  have 3: "later b (unsubscribe l (b\<lparr>store := s\<rparr>))" for l s
    by (rule later_trans[OF 1 later_unsubscribe[OF wf1]])
  then have wf3: "wf_bus (unsubscribe l (b\<lparr>store := s\<rparr>))" for l s by (simp add: later_def)
  have 4: "later b ((unsubscribe l (b\<lparr>store := s\<rparr>))\<lparr>store := s'\<rparr>)" for l s s'
    by (rule later_trans[OF 3 later_store[OF wf3]])
  then have wf4: "wf_bus ((unsubscribe l (b\<lparr>store := s\<rparr>))\<lparr>store := s'\<rparr>)" for l s s'
    by (simp add: later_def)
  have 5: "later b (resolve q v s1 s2 ((unsubscribe l (b\<lparr>store := s\<rparr>))\<lparr>store := s'\<rparr>))"
    for q v s1 s2 l s s'
    by (rule later_trans[OF 4 later_resolve[OF wf4]])
  show ?thesis
    using later_refl[OF wf] 1 2 3 4 5
    by (simp add: waiter_def Let_def split: prod.splits sum.splits option.splits)
qed

lemma take_prefix: "prefix xs ys \<Longrightarrow> len \<le> length xs \<Longrightarrow> take len ys = take len xs"
  by (auto simp: prefix_def)

lemma later_wf: "later b b' \<Longrightarrow> wf_bus b'"
  by (simp add: later_def)

lemma engine_later:
  fixes C :: "('s, 'a, 'v) code"
  shows "wf_bus b \<Longrightarrow> exec C n cs b = Some c \<Longrightarrow> later b (state_of c)"
    and "wf_bus b \<Longrightarrow> call_listener C n l b = Some c \<Longrightarrow> later b (state_of c)"
    and "wf_bus b \<Longrightarrow> array < length (arrays b) \<Longrightarrow> len \<le> length (arrays b ! array)
         \<Longrightarrow> pass < passes b \<Longrightarrow> forEach C n pass array len k b = Some c
         \<Longrightarrow> later_but pass b (state_of c)
             \<and> pass_result pass (drop k (take len (arrays b ! array))) b c"
    and "wf_bus b \<Longrightarrow> globalListener C n b = Some c
         \<Longrightarrow> later b (state_of c) \<and> pass_result (passes b) (current_listeners b) b c"
proof (induction C n cs b and C n l b and C n pass array len k b and C n b
       arbitrary: c and c and c and c
       rule: exec_call_listener_forEach_globalListener.induct)
  case (1 C n b)
  then show ?case by (auto simp: later_refl)
next
  case (2 C n l cs b)
  from 2 have "later (subscribe (External l) b) (state_of c)"
    by (simp add: later_wf[OF later_subscribe])
  then show ?case using later_trans[OF later_subscribe[OF 2(2)]] by blast
next
  case (3 C n l cs b)
  from 3 have "later (unsubscribe (External l) b) (state_of c)"
    by (simp add: later_wf[OF later_unsubscribe])
  then show ?case using later_trans[OF later_unsubscribe[OF 3(2)]] by blast
next
  case (4 C n cs b)
  then show ?case by (auto simp: later_refl)
next
  case (5 C n f cs b)
  from 5 have "later (b\<lparr>store := f (store b)\<rparr>) (state_of c)"
    by (simp add: later_wf[OF later_store])
  then show ?case using later_trans[OF later_store[OF 5(2)]] by blast
next
  case (6 C n name as cs b)
  show ?case
  proof (cases "getResolveSelectors (selectors C) name")
    case None
    then show ?thesis using 6(2,3) by (auto simp: later_refl)
  next
    case (Some sel)
    have "later (resolveSelect_call C name sel as b) (state_of c)"
      using 6(1)[OF Some later_wf[OF later_resolveSelect_call[OF 6(2)]]] 6(3) Some by simp
    then show ?thesis using later_trans[OF later_resolveSelect_call[OF 6(2)]] by blast
  qed
next
  case (7 C cs b)
  then show ?case by simp
next
  case (8 C n cs b)
  show ?case
  proof (cases "globalListener C n b")
    case None
    then show ?thesis using 8(4) by simp
  next
    case (Some r)
    have r: "later b (state_of r)" using 8(1)[OF 8(3) Some] by simp
    show ?thesis
    proof (cases r)
      case (Threw b')
      then show ?thesis using 8(4) Some r by simp
    next
      case (Returned b')
      then have "exec C (Suc n) cs b' = Some c" using 8(4) Some by simp
      then have "later b' (state_of c)"
        using 8(2)[OF Some Returned] r Returned by (simp add: later_wf)
      then show ?thesis using r Returned later_trans by fastforce
    qed
  qed
next
  case (9 C n l b)
  then show ?case by simp
next
  case (10 C n p b)
  then show ?case by (auto simp: later_waiter)
next
  case (11 C n pass array len k b)
  note wf = 11(4) and arr = 11(5) and len = 11(6) and pass = 11(7) and run = 11(8)
  show ?case
  proof (cases "k < len")
    case False
    then have "c = Returned b" using run by (simp add: forEach.simps[of C n pass array len k b])
    then show ?thesis using wf False
      by (simp add: later_but_def pass_result_def arrays_grow_def)
  next
    case k: True
    then have k': "k < length (arrays b ! array)" using len by simp
    let ?l = "arrays b ! array ! k"
    let ?b1 = "b\<lparr>calls := calls b @ [(pass, ?l)]\<rparr>"
    have wf1: "wf_bus ?b1" using wf pass by (auto simp: wf_bus_def)
    have split: "drop k (take len (arrays b ! array)) = ?l # drop (Suc k) (take len (arrays b ! array))"
      using k k' by (simp add: Cons_nth_drop_Suc[symmetric])
    have pc1: "pass_calls pass ?b1 = pass_calls pass b @ [?l]"
      and pc1': "\<And>q. q \<noteq> pass \<Longrightarrow> pass_calls q ?b1 = pass_calls q b"
      by (simp_all add: pass_calls_def)
    show ?thesis
    proof (cases "call_listener C n ?l ?b1")
      case None
      then show ?thesis using run k k' by (simp add: forEach.simps[of C n pass array len k b])
    next
      case (Some r)
      have r: "later ?b1 (state_of r)" using 11(1)[OF k k' wf1 Some] .
      then have wfr: "wf_bus (state_of r)"
        and gr: "arrays_grow b (state_of r)"
        and keep: "\<And>q. q < passes b \<Longrightarrow> pass_calls q (state_of r) = pass_calls q ?b1"
        by (simp_all add: later_def arrays_grow_def older_calls_kept_def)
      show ?thesis
      proof (cases r)
        case (Threw b')
        then have c: "c = Threw b'" using run k k' Some by (simp add: forEach.simps[of C n pass array len k b])
        have "pass_calls pass b' = pass_calls pass b @ [?l]"
          using keep[OF pass] Threw pc1 by simp
        then have "pass_result pass (drop k (take len (arrays b ! array))) b c"
          using c split by (simp add: pass_result_def)
        moreover have "later_but pass b (state_of c)"
          using c Threw wfr gr keep pc1' by (simp add: later_but_def)
        ultimately show ?thesis by simp
      next
        case (Returned b')
        then have run': "forEach C n pass array len (Suc k) b' = Some c"
          using run k k' Some by (simp add: forEach.simps[of C n pass array len k b])
        have wf': "wf_bus b'" and g': "arrays_grow b b'" using wfr gr Returned by simp_all
        have arr': "array < length (arrays b')" using g' arr by (simp add: arrays_grow_def)
        have pre: "prefix (arrays b ! array) (arrays b' ! array)"
          using g' arr by (simp add: arrays_grow_def)
        then have len': "len \<le> length (arrays b' ! array)"
          using len prefix_length_le by fastforce
        have pass': "pass < passes b'" using g' pass by (simp add: arrays_grow_def)
        have same: "take len (arrays b' ! array) = take len (arrays b ! array)"
          using pre len by (rule take_prefix)
        from 11(2)[OF k k' Some Returned wf' arr' len' pass' run']
        have lb: "later_but pass b' (state_of c)"
          and pr: "pass_result pass (drop (Suc k) (take len (arrays b ! array))) b' c"
          by (simp_all add: same)
        have pcb': "pass_calls pass b' = pass_calls pass b @ [?l]"
          using keep[OF pass] Returned pc1 by simp
        have "pass_result pass (drop k (take len (arrays b ! array))) b c"
          using pr pcb' split by (cases "has_returned c") (simp_all add: pass_result_def)
        moreover have "later_but pass b (state_of c)"
          using lb g' keep pc1' Returned
          unfolding later_but_def arrays_grow_def
          by (auto intro: prefix_order.trans)
        ultimately show ?thesis by simp
      qed
    qed
  qed
next
  case (12 C n b)
  let ?b0 = "b\<lparr>passes := Suc (passes b)\<rparr>"
  have wf0: "wf_bus ?b0" using 12(2) by (auto simp: wf_bus_def)
  have run: "forEach C n (passes b) (listeners b) (length (current_listeners b)) 0 ?b0 = Some c"
    using 12(3) by (simp add: globalListener.simps)
  have none: "pass_calls (passes b) b = []"
    using 12(2) by (auto simp: wf_bus_def pass_calls_def filter_empty_conv)
  from 12(1)[OF wf0 _ _ _ run]
  have lb: "later_but (passes b) ?b0 (state_of c)"
    and pr: "pass_result (passes b) (current_listeners b) ?b0 c"
    using 12(2) by (simp_all add: wf_bus_def current_listeners_def)
  have "pass_calls (passes b) ?b0 = pass_calls (passes b) b"
    by (simp add: pass_calls_def)
  then have "pass_result (passes b) (current_listeners b) b c"
    using pr by (cases "has_returned c") (simp_all add: pass_result_def)
  moreover have "later b (state_of c)"
    using lb unfolding later_but_def later_def arrays_grow_def older_calls_kept_def
    by (auto simp: pass_calls_def)
  ultimately show ?case by simp
qed

subsection \<open>What is kept of the promises\<close>











subsection \<open>The invariant of the promises, step by step\<close>


lemma current_listeners_unsubscribe:
  "current_listeners (unsubscribe l b) = without (current_listeners b) l"
  by (simp add: unsubscribe_def current_listeners_def)




































lemma engine_total:
  fixes C :: "('s, 'a, 'v) code"
  shows "(\<forall>l s. Notify \<notin> set (body C l s)) \<Longrightarrow> Notify \<notin> set cs \<Longrightarrow> exec C n cs b \<noteq> None"
    and "(\<forall>l s. Notify \<notin> set (body C l s)) \<Longrightarrow> call_listener C n l b \<noteq> None"
    and "(\<forall>l s. Notify \<notin> set (body C l s)) \<Longrightarrow> forEach C n pass array len k b \<noteq> None"
    and "(\<forall>l s. Notify \<notin> set (body C l s)) \<Longrightarrow> globalListener C n b \<noteq> None"
proof (induction C n cs b and C n l b and C n pass array len k b and C n b
       rule: exec_call_listener_forEach_globalListener.induct)
  case (6 C n name as cs b)
  then show ?case by (cases "getResolveSelectors (selectors C) name") simp_all
next
  case (11 C n pass array len k b)
  show ?case
  proof (cases "k < len \<and> k < length (arrays b ! array)")
    case False
    then show ?thesis using 11(3,4) by (auto simp: forEach.simps[of C n pass array len k b])
  next
    case True
    let ?b1 = "b\<lparr>calls := calls b @ [(pass, arrays b ! array ! k)]\<rparr>"
    from True 11(1,4) obtain r where r: "call_listener C n (arrays b ! array ! k) ?b1 = Some r"
      by blast
    show ?thesis
    proof (cases r)
      case (Threw b')
      then show ?thesis using r True by (simp add: forEach.simps[of C n pass array len k b])
    next
      case (Returned b')
      then show ?thesis using r True 11(2)[OF _ _ r Returned 11(4)]
        by (simp add: forEach.simps[of C n pass array len k b])
    qed
  qed
next
  case (12 C n b)
  then show ?case by (simp add: globalListener.simps)
qed simp_all



subsection \<open>The bound on nested passes\<close>

text \<open>A result found within a bound is the result within every larger bound.\<close>

lemma engine_more_fuel:
  fixes C :: "('s, 'a, 'v) code"
  shows "exec C n cs b = Some c \<Longrightarrow> exec C (Suc n) cs b = Some c"
    and "call_listener C n l b = Some c \<Longrightarrow> call_listener C (Suc n) l b = Some c"
    and "forEach C n pass array len k b = Some c \<Longrightarrow> forEach C (Suc n) pass array len k b = Some c"
    and "globalListener C n b = Some c \<Longrightarrow> globalListener C (Suc n) b = Some c"
proof (induction C n cs b and C n l b and C n pass array len k b and C n b
       arbitrary: c and c and c and c
       rule: exec_call_listener_forEach_globalListener.induct)
  case (6 C n name as cs b)
  then show ?case by (cases "getResolveSelectors (selectors C) name") simp_all
next
  case (8 C n cs b)
  show ?case
  proof (cases "globalListener C n b")
    case None
    then show ?thesis using 8(3) by simp
  next
    case (Some r)
    have r': "globalListener C (Suc n) b = Some r" by (rule 8(1)[OF Some])
    show ?thesis
    proof (cases r)
      case (Threw b')
      then show ?thesis using 8(3) Some r' by auto
    next
      case (Returned b')
      then have "exec C (Suc n) cs b' = Some c" using 8(3) Some by simp
      then have "exec C (Suc (Suc n)) cs b' = Some c" by (rule 8(2)[OF Some Returned])
      then show ?thesis using r' Returned by simp
    qed
  qed
next
  case (11 C n pass array len k b)
  note run = 11(4)
  show ?case
  proof (cases "k < len")
    case False
    then show ?thesis using run
      by (simp add: forEach.simps[of C n pass array len k b]
            forEach.simps[of C "Suc n" pass array len k b])
  next
    case k: True
    show ?thesis
    proof (cases "k < length (arrays b ! array)")
      case False
      then have "forEach C n pass array len (Suc k) b = Some c"
        using run k by (simp add: forEach.simps[of C n pass array len k b])
      then have "forEach C (Suc n) pass array len (Suc k) b = Some c"
        by (rule 11(3)[OF k False])
      then show ?thesis using k False
        by (simp add: forEach.simps[of C "Suc n" pass array len k b])
    next
      case k': True
      let ?l = "arrays b ! array ! k"
      let ?b1 = "b\<lparr>calls := calls b @ [(pass, ?l)]\<rparr>"
      show ?thesis
      proof (cases "call_listener C n ?l ?b1")
        case None
        then show ?thesis using run k k' by (simp add: forEach.simps[of C n pass array len k b])
      next
        case (Some r)
        have r': "call_listener C (Suc n) ?l ?b1 = Some r" by (rule 11(1)[OF k k' Some])
        show ?thesis
        proof (cases r)
          case (Threw b')
          then show ?thesis using run k k' Some r'
            by (auto simp: forEach.simps[of C n pass array len k b]
                  forEach.simps[of C "Suc n" pass array len k b])
        next
          case (Returned b')
          then have "forEach C n pass array len (Suc k) b' = Some c"
            using run k k' Some by (simp add: forEach.simps[of C n pass array len k b])
          then have "forEach C (Suc n) pass array len (Suc k) b' = Some c"
            by (rule 11(2)[OF k k' Some Returned])
          then show ?thesis using k k' r' Returned
            by (simp add: forEach.simps[of C "Suc n" pass array len k b])
        qed
      qed
    qed
  qed
next
  case (12 C n b)
  then show ?case by (simp add: globalListener.simps)
qed simp_all

subsection \<open>A pass of globalListener\<close>

text \<open>Evaluating the examples unfolds these definitions.\<close>

lemmas eval_defs = quiet_code_def new_bus_def subscribe_def unsubscribe_def
  current_listeners_def without_def bus_of_def state_of_def resolveSelect_call_def waiter_def
  hasFinished_def resolve_def reject_def getResolveSelectors_def excluded_selectors_def Let_def

lemma snapshot_example_run:
  "globalListener quiet_code 0 snapshot_example =
     Some (Returned
       \<lparr>arrays = [[External 0, External 2, External 1], [External 0, External 1]],
        listeners = 1, store = 0, promises = [], resolutions = [], declines = [], passes = 1,
        calls = [(0, External 0), (0, External 2)]\<rparr>)"
  by (simp add: snapshot_example_def forEach.simps globalListener.simps eval_defs)

text \<open>
  C2. A pass of \<^verbatim>\<open>globalListener\<close> that begins in state \<open>b\<close> has the number \<open>passes b\<close>.
  Whenever it ends, the listeners it has called are, in this order, the listeners that
  were subscribed when it began: all of them when it returns, the first ones up to the
  one that threw when an exception ends it. A listener subscribed during the pass is
  pushed onto the array behind them and is not called by this pass (a pass that a
  listener starts by calling \<^verbatim>\<open>globalListener\<close> itself is a pass of its own, with its own
  number). When no listener does that, the pass does end.
\<close>

theorem globalListener_calls_the_snapshot:
  assumes "wf_bus b"
  shows "(\<forall>c. globalListener C n b = Some c \<longrightarrow>
            prefix (pass_calls (passes b) (state_of c)) (current_listeners b)
            \<and> (has_returned c \<longrightarrow> pass_calls (passes b) (state_of c) = current_listeners b)
            \<and> prefix (current_listeners b) (arrays (state_of c) ! listeners b))
       \<and> ((\<forall>l s. Notify \<notin> set (body C l s)) \<longrightarrow> (\<exists>c. globalListener C n b = Some c))"
proof (intro conjI allI impI)
  fix c assume run: "globalListener C n b = Some c"
  have none: "pass_calls (passes b) b = []"
    using assms by (auto simp: wf_bus_def pass_calls_def filter_empty_conv)
  from engine_later(4)[OF assms run]
  have l: "later b (state_of c)" and r: "pass_result (passes b) (current_listeners b) b c"
    by simp_all
  show "prefix (pass_calls (passes b) (state_of c)) (current_listeners b)"
    using r none by (cases "has_returned c") (simp_all add: pass_result_def)
  show "pass_calls (passes b) (state_of c) = current_listeners b" if "has_returned c"
    using r none that by (simp add: pass_result_def)
  show "prefix (current_listeners b) (arrays (state_of c) ! listeners b)"
    using l assms by (simp add: later_def arrays_grow_def wf_bus_def current_listeners_def)
next
  assume "\<forall>l s. Notify \<notin> set (body C l s)"
  then show "\<exists>c. globalListener C n b = Some c"
    using engine_total(4)[of C n b] by auto
qed

theorem globalListener_calls_the_snapshot_witness:
  "current_listeners snapshot_example = [External 0, External 2]
   \<and> pass_calls 0 (state_of (the (globalListener quiet_code 0 snapshot_example)))
       = [External 0, External 2]
   \<and> External 1 \<in> set (arrays (state_of (the (globalListener quiet_code 0 snapshot_example))) ! 0)
   \<and> (\<exists>c. globalListener quiet_code 0 snapshot_example = Some c)"
proof -
  have wf: "wf_bus snapshot_example"
    by (simp add: snapshot_example_def wf_bus_def eval_defs)
  have nf: "\<forall>l s. Notify \<notin> set (body quiet_code l s)"
    by (simp add: quiet_code_def)
  have cur: "current_listeners snapshot_example = [External 0, External 2]"
    by (simp add: snapshot_example_def eval_defs)
  have p0: "passes snapshot_example = 0"
    by (simp add: snapshot_example_def eval_defs)
  note t = globalListener_calls_the_snapshot[OF wf, of quiet_code 0]
  from t nf snapshot_example_run
  have "pass_calls 0 (state_of (the (globalListener quiet_code 0 snapshot_example)))
       = [External 0, External 2]"
    by (simp add: cur p0)
  then show ?thesis using cur snapshot_example_run by simp
qed

subsection \<open>The function that subscribe returns\<close>

text \<open>
  C3 as stated fails: \<^verbatim>\<open>without\<close> leaves out every element equal to the listener. With
  listener 5 subscribed, then listener 6, then listener 5 again, one call of the function
  returned for listener 5 leaves only listener 6, and the next pass calls listener 6 alone.
\<close>

theorem unsubscribe_removes_both_registrations:
  "current_listeners twice_example = [External 5, External 6, External 5]
   \<and> current_listeners (unsubscribe (External 5) twice_example) = [External 6]
   \<and> map_option calls
        (bus_of (exec quiet_code 1 [Subscribe 5, Subscribe 6, Subscribe 5, Unsubscribe 5, Notify] (new_bus 0)))
       = Some [(0, External 6)]"
  by (simp add: twice_example_def forEach.simps globalListener.simps eval_defs)

text \<open>
  C3, amended. The function returned by \<^verbatim>\<open>subscribe( listener )\<close> removes every registration
  of that listener and no other listener, keeping the order of the rest; calling it again
  right away changes nothing; and a pass that begins after the call does not call the
  listener, however often it had been subscribed.
\<close>

theorem unsubscribe_removes_every_registration:
  "current_listeners (unsubscribe l b) = filter (\<lambda>x. x \<noteq> l) (current_listeners b)
   \<and> current_listeners (unsubscribe l (unsubscribe l b)) = current_listeners (unsubscribe l b)
   \<and> (wf_bus b \<and> globalListener C n (unsubscribe l b) = Some c \<longrightarrow>
        l \<notin> set (pass_calls (passes b) (state_of c)))"
proof (intro conjI impI)
  show 1: "current_listeners (unsubscribe l b) = filter (\<lambda>x. x \<noteq> l) (current_listeners b)"
    by (simp add: current_listeners_unsubscribe without_def)
  show "current_listeners (unsubscribe l (unsubscribe l b)) = current_listeners (unsubscribe l b)"
    by (simp add: current_listeners_unsubscribe without_def)
  assume a: "wf_bus b \<and> globalListener C n (unsubscribe l b) = Some c"
  then have wf: "wf_bus (unsubscribe l b)" by (simp add: later_wf[OF later_unsubscribe])
  have p: "passes (unsubscribe l b) = passes b" by (simp add: unsubscribe_def)
  have none: "pass_calls (passes b) (unsubscribe l b) = []"
    using wf p by (auto simp: wf_bus_def pass_calls_def filter_empty_conv)
  from engine_later(4)[OF wf conjunct2[OF a]]
  have "pass_result (passes b) (current_listeners (unsubscribe l b)) (unsubscribe l b) c"
    by (simp add: p)
  then have "prefix (pass_calls (passes b) (state_of c)) (current_listeners (unsubscribe l b))"
    using none by (cases "has_returned c") (simp_all add: pass_result_def)
  then have "set (pass_calls (passes b) (state_of c)) \<subseteq> set (current_listeners (unsubscribe l b))"
    by (rule set_mono_prefix)
  then show "l \<notin> set (pass_calls (passes b) (state_of c))"
    unfolding 1 by auto
qed

theorem unsubscribe_removes_every_registration_witness:
  "current_listeners (unsubscribe (External 5) twice_example) = [External 6]
   \<and> current_listeners (unsubscribe (External 5) (unsubscribe (External 5) twice_example)) = [External 6]
   \<and> External 5 \<notin> set (pass_calls 0
         (state_of (the (globalListener quiet_code 0 (unsubscribe (External 5) twice_example)))))"
proof -
  have wf: "wf_bus twice_example"
    by (simp add: twice_example_def wf_bus_def eval_defs)
  have cur: "current_listeners twice_example = [External 5, External 6, External 5]"
    by (simp add: twice_example_def eval_defs)
  have p0: "passes twice_example = 0"
    by (simp add: twice_example_def eval_defs)
  have run: "globalListener quiet_code 0 (unsubscribe (External 5) twice_example)
             = Some (the (globalListener quiet_code 0 (unsubscribe (External 5) twice_example)))"
    by (simp add: twice_example_def forEach.simps globalListener.simps eval_defs)
  from unsubscribe_removes_every_registration
         [of "External 5" twice_example quiet_code 0
             "the (globalListener quiet_code 0 (unsubscribe (External 5) twice_example))"]
       wf run
  show ?thesis by (simp add: cur p0)
qed

subsection \<open>Promises of the resolve selectors\<close>








text \<open>
  While resolution has not finished, a pass leaves the promise pending and its listener
  subscribed; the listener has declined. When \<^verbatim>\<open>getResult()\<close> throws in the listener, the
  pass ends with the exception, and the promise stays pending with no listener.
\<close>

lemma unfinished_and_throwing_examples:
  "exec quiet_code 1 [ResolveSelect ''getThing'' (), Notify] (new_bus 0) =
     Some (Returned
       \<lparr>arrays = [[Waiter 0]], listeners = 0, store = 1,
        promises = [\<lparr>selectorName = ''getThing'', args = (), status = Pending\<rparr>],
        resolutions = [], declines = [(0, 1)], passes = 1, calls = [(0, Waiter 0)]\<rparr>)"
  "exec throwing_code 1 [ResolveSelect ''getThing'' (), Update (\<lambda>s. 2), Notify] (new_bus 0) =
     Some (Threw
       \<lparr>arrays = [[Waiter 0], []], listeners = 1, store = 2,
        promises = [\<lparr>selectorName = ''getThing'', args = (), status = Pending\<rparr>],
        resolutions = [], declines = [], passes = 1, calls = [(0, Waiter 0)]\<rparr>)"
  by code_simp+




end
